theory Spec2Isabelle
  imports Main
begin

section \<open>JavaScript values\<close>

text \<open>
  The registry stores, merges and returns JavaScript values. A value is modelled as a
  tree: primitives, functions and class instances (opaque, named by a number), the
  built-in members of \<open>Object.prototype\<close> (named by their property name), plain arrays
  and plain objects, and the two persistent collections of the Immutable library that the
  registry uses, \<open>Immutable.List\<close> and \<open>Immutable.Map\<close>. An object is the list of its
  own enumerable properties; the keys of a well-formed object are distinct. Numbers are the
  integer-valued ones. A key of an \<open>Immutable.Map\<close> is a string or a number (an index).
\<close>

datatype key = KStr string | KNum nat

datatype jsval =
    JUndefined
  | JNull
  | JBool bool
  | JNumber int
  | JString string
  | JFunction nat
  | JInstance nat
  | JNative string
  | JArray "jsval list"
  | JObject "(string \<times> jsval) list"
  | ImmList "jsval list"
  | ImmMap "(key \<times> jsval) list"

datatype error =
    TypeError string
  | ConfigError string
  | OutsideModel string

text \<open>Truthiness, as \<open>if (x)\<close> and \<open>x || y\<close> test it.\<close>

fun truthy :: "jsval \<Rightarrow> bool" where
  "truthy JUndefined = False"
| "truthy JNull = False"
| "truthy (JBool b) = b"
| "truthy (JNumber n) = (n \<noteq> 0)"
| "truthy (JString s) = (s \<noteq> [])"
| "truthy v = True"

text \<open>Reading and writing an own property of a plain object: \<open>o[k]\<close> and \<open>o[k] = v\<close>.\<close>

definition ownProp :: "(string \<times> jsval) list \<Rightarrow> string \<Rightarrow> jsval" where
  "ownProp obj k = (case map_of obj k of Some v \<Rightarrow> v | None \<Rightarrow> JUndefined)"

fun assign :: "('k \<times> 'v) list \<Rightarrow> 'k \<Rightarrow> 'v \<Rightarrow> ('k \<times> 'v) list" where
  "assign [] k v = [(k, v)]"
| "assign ((k', v') # kvs) k v =
     (if k' = k then (k, v) # kvs else (k', v') # assign kvs k v)"

section \<open>The Immutable collections\<close>

text \<open>
  The registry is built with \<open>Immutable.fromJS\<close>, \<open>Map.mergeDeep\<close>, \<open>Map.set\<close>,
  \<open>Map.get\<close> and \<open>toJS\<close> of the Immutable library, release 3.8 (the package manifest
  asks for \<open>^3.8.2\<close>). The library is a dependency, so its functions are modelled from
  their behaviour in that release. A Map is the list of its entries in the order of their
  insertion, which is the order in which the library iterates a Map of at most eight
  entries; it iterates a larger Map in the order of the hashes of its keys, so that for a
  larger Map the properties of the object that \<open>toJS\<close> builds are the model's, in
  another order.

  \<open>fromJS\<close> turns arrays into Lists and plain objects into Maps, deeply, and leaves
  every other value as it is. The library takes an object for plain when its
  \<open>constructor\<close> property is \<open>Object\<close> or \<open>undefined\<close>: an object with an own
  property \<open>constructor\<close> of another value is left as it is. \<open>JNative ''constructor''\<close>
  is \<open>Object.prototype.constructor\<close>, the function \<open>Object\<close>.
\<close>

definition isPlainObj :: "(string \<times> jsval) list \<Rightarrow> bool" where
  "isPlainObj obj =
     (case map_of obj ''constructor'' of
        None \<Rightarrow> True
      | Some c \<Rightarrow> c = JUndefined \<or> c = JNative ''constructor'')"

fun fromJS :: "jsval \<Rightarrow> jsval"
  and fromJS_items :: "jsval list \<Rightarrow> jsval list"
  and fromJS_props :: "(string \<times> jsval) list \<Rightarrow> (key \<times> jsval) list" where
  "fromJS (JArray xs) = ImmList (fromJS_items xs)"
| "fromJS (JObject kvs) = (if isPlainObj kvs then ImmMap (fromJS_props kvs) else JObject kvs)"
| "fromJS v = v"
| "fromJS_items [] = []"
| "fromJS_items (x # xs) = fromJS x # fromJS_items xs"
| "fromJS_props [] = []"
| "fromJS_props ((k, v) # kvs) = (KStr k, fromJS v) # fromJS_props kvs"

text \<open>
  \<open>toJS\<close> turns a collection into a new plain array or object, converting deeply every
  member that is itself a collection and leaving every other member as it is. The keys
  of the object are the Map's keys as strings.
\<close>

fun digit_char :: "nat \<Rightarrow> char" where
  "digit_char n = char_of (48 + n)"

fun decimal :: "nat \<Rightarrow> string" where
  "decimal n = (if n < 10 then [digit_char n] else decimal (n div 10) @ [digit_char (n mod 10)])"

fun keyString :: "key \<Rightarrow> string" where
  "keyString (KStr s) = s"
| "keyString (KNum n) = decimal n"

fun toJS :: "jsval \<Rightarrow> jsval"
  and toJS_items :: "jsval list \<Rightarrow> jsval list"
  and toJS_entries :: "(key \<times> jsval) list \<Rightarrow> (string \<times> jsval) list \<Rightarrow> (string \<times> jsval) list" where
  "toJS (ImmList xs) = JArray (toJS_items xs)"
| "toJS (ImmMap kvs) = JObject (toJS_entries kvs [])"
| "toJS v = v"
| "toJS_items [] = []"
| "toJS_items (x # xs) = toJS x # toJS_items xs"
| "toJS_entries [] obj = obj"
| "toJS_entries ((k, v) # kvs) obj = toJS_entries kvs (assign obj (keyString k) (toJS v))"

text \<open>The method call \<open>it.toJS()\<close>: only a collection has the method.\<close>

fun call_toJS :: "jsval \<Rightarrow> error + jsval" where
  "call_toJS (ImmList xs) = Inr (toJS (ImmList xs))"
| "call_toJS (ImmMap kvs) = Inr (toJS (ImmMap kvs))"
| "call_toJS v = Inl (TypeError ''it.toJS is not a function'')"

text \<open>\<open>Map.get\<close> and \<open>Map.set\<close>.\<close>

definition Map_get :: "(key \<times> jsval) list \<Rightarrow> key \<Rightarrow> jsval" where
  "Map_get m k = (case map_of m k of Some v \<Rightarrow> v | None \<Rightarrow> JUndefined)"

definition Map_set :: "(key \<times> jsval) list \<Rightarrow> key \<Rightarrow> jsval \<Rightarrow> (key \<times> jsval) list" where
  "Map_set m k v = assign m k v"

text \<open>The method call \<open>it.get(name)\<close>.\<close>

fun call_get :: "jsval \<Rightarrow> string \<Rightarrow> error + jsval" where
  "call_get (ImmMap m) attrName = Inr (Map_get m (KStr attrName))"
| "call_get (ImmList xs) attrName = Inr JUndefined"
| "call_get v attrName = Inl (TypeError ''it.get is not a function'')"

text \<open>
  \<open>mergeDeep\<close>. The library merges the entries of its argument into the collection one
  by one: a key the collection does not have is added with the argument's value; at a key
  it has, \<open>deepMerger\<close> combines the existing value and the new one. \<open>deepMerger\<close>
  recurses when the existing value is a Map or a List and the new value is a collection,
  and otherwise returns the new value. A List merges by index, and reads a Map argument as
  the sequence of its entries (pairs, as plain arrays). A Map reads a List argument as a
  list of \<open>[key, value]\<close> entries: it skips an element that is falsy and throws a
  \<open>TypeError\<close> at an element that is another primitive; an element that is an object,
  read as an entry, is outside the model.
\<close>

fun keyValue :: "key \<Rightarrow> jsval" where
  "keyValue (KStr s) = JString s"
| "keyValue (KNum n) = JNumber (int n)"

fun entrySeq :: "(key \<times> jsval) list \<Rightarrow> jsval list" where
  "entrySeq [] = []"
| "entrySeq ((k, v) # kvs) = JArray [keyValue k, v] # entrySeq kvs"

fun isPrimitive :: "jsval \<Rightarrow> bool" where
  "isPrimitive JUndefined = True"
| "isPrimitive JNull = True"
| "isPrimitive (JBool b) = True"
| "isPrimitive (JNumber n) = True"
| "isPrimitive (JString s) = True"
| "isPrimitive v = False"

fun mergeEntries :: "(key \<times> jsval) list \<Rightarrow> jsval list \<Rightarrow> error + (key \<times> jsval) list" where
  "mergeEntries m [] = Inr m"
| "mergeEntries m (entry # rest) =
     (if \<not> truthy entry then mergeEntries m rest
      else if isPrimitive entry then Inl (TypeError ''Expected [K, V] tuple'')
      else Inl (OutsideModel ''an object read as a [K, V] entry''))"

fun deepMerger :: "jsval \<Rightarrow> jsval \<Rightarrow> error + jsval"
  and mergeIntoMap :: "(key \<times> jsval) list \<Rightarrow> (key \<times> jsval) list \<Rightarrow> error + (key \<times> jsval) list"
  and mergeIntoList :: "jsval list \<Rightarrow> jsval list \<Rightarrow> error + jsval list" where
  "deepMerger (ImmMap a) (ImmMap b) =
     (case mergeIntoMap a b of Inl e \<Rightarrow> Inl e | Inr m \<Rightarrow> Inr (ImmMap m))"
| "deepMerger (ImmMap a) (ImmList b) =
     (case mergeEntries a b of Inl e \<Rightarrow> Inl e | Inr m \<Rightarrow> Inr (ImmMap m))"
| "deepMerger (ImmList a) (ImmList b) =
     (case mergeIntoList a b of Inl e \<Rightarrow> Inl e | Inr xs \<Rightarrow> Inr (ImmList xs))"
| "deepMerger (ImmList a) (ImmMap b) = Inr (ImmList (entrySeq b @ drop (length b) a))"
| "deepMerger existing v = Inr v"
| "mergeIntoMap m [] = Inr m"
| "mergeIntoMap m ((k, v) # kvs) =
     (case (case map_of m k of None \<Rightarrow> Inr v | Some existing \<Rightarrow> deepMerger existing v) of
        Inl e \<Rightarrow> Inl e
      | Inr merged \<Rightarrow> mergeIntoMap (assign m k merged) kvs)"
| "mergeIntoList es [] = Inr es"
| "mergeIntoList [] (v # vs) = Inr (v # vs)"
| "mergeIntoList (e # es) (v # vs) =
     (case deepMerger e v of
        Inl err \<Rightarrow> Inl err
      | Inr merged \<Rightarrow>
          (case mergeIntoList es vs of Inl err \<Rightarrow> Inl err | Inr rest \<Rightarrow> Inr (merged # rest)))"

text \<open>
  The method call \<open>map.mergeDeep(x)\<close> on a Map. The own properties of an object
  argument are read through \<open>fromJS\<close>; \<open>null\<close> and \<open>undefined\<close> are read as empty;
  a List and a plain array are read as lists of entries; a string is read as the list of
  its characters, which are not entries; a function or another primitive is refused by
  the library. A class instance, whose properties the model does not hold, is outside the
  model.
\<close>

fun Map_mergeDeep :: "(key \<times> jsval) list \<Rightarrow> jsval \<Rightarrow> error + (key \<times> jsval) list" where
  "Map_mergeDeep m (ImmMap b) = mergeIntoMap m b"
| "Map_mergeDeep m (ImmList b) = mergeEntries m b"
| "Map_mergeDeep m (JObject kvs) = mergeIntoMap m (fromJS_props kvs)"
| "Map_mergeDeep m (JArray xs) = mergeEntries m xs"
| "Map_mergeDeep m JUndefined = Inr m"
| "Map_mergeDeep m JNull = Inr m"
| "Map_mergeDeep m (JInstance i) = Inl (OutsideModel ''mergeDeep of a class instance'')"
| "Map_mergeDeep m (JString s) =
     (if s = [] then Inl (TypeError ''Expected Array or iterable object of [k, v] entries, or keyed object'')
      else Inl (TypeError ''Expected [K, V] tuple''))"
| "Map_mergeDeep m v = Inl (TypeError ''Expected Array or iterable object of [k, v] entries, or keyed object'')"

section \<open>The Maybe wrapper\<close>

text \<open>
  Modelled from the spec: the \<open>Maybe\<close> wrapper of \<open>util/type-handling\<close>, which is not
  among the sources. The spec calls it the absent-value idiom, with is-present and unwrap
  operations and a non-throwing miss: a wrapped \<open>undefined\<close> is the absent value, \<open>bind\<close>
  on the absent value does nothing, \<open>bind\<close> on a present value wraps what the function
  returns, and \<open>unwrap\<close> gives the value back, \<open>undefined\<close> when absent. An exception
  of the function passes through.
\<close>

datatype maybe = Just jsval | Nothing

definition Maybe :: "jsval \<Rightarrow> maybe" where
  "Maybe x = (if x = JUndefined then Nothing else Just x)"

fun bind_maybe :: "maybe \<Rightarrow> (jsval \<Rightarrow> error + jsval) \<Rightarrow> error + maybe" where
  "bind_maybe Nothing f = Inr Nothing"
| "bind_maybe (Just x) f = (case f x of Inl e \<Rightarrow> Inl e | Inr y \<Rightarrow> Inr (Maybe y))"

fun unwrap :: "maybe \<Rightarrow> jsval" where
  "unwrap Nothing = JUndefined"
| "unwrap (Just x) = x"

section \<open>The resource type registry\<close>

text \<open>
  \<open>this[typesKey]\<close> is a plain object created by \<open>{}\<close>: the list of its own properties,
  one per registered type, with \<open>Object.prototype\<close> behind it. Reading a property and
  the \<open>in\<close> operator both look at the own properties first and at the prototype's
  members next.
\<close>

type_synonym registry = "(string \<times> jsval) list"

definition objectPrototypeProps :: "string list" where
  "objectPrototypeProps =
     [''constructor'', ''hasOwnProperty'', ''isPrototypeOf'', ''propertyIsEnumerable'',
      ''toLocaleString'', ''toString'', ''valueOf'', ''__proto__'',
      ''__defineGetter__'', ''__defineSetter__'', ''__lookupGetter__'', ''__lookupSetter__'']"

definition getProp :: "registry \<Rightarrow> string \<Rightarrow> jsval" where
  "getProp obj k =
     (case map_of obj k of
        Some v \<Rightarrow> v
      | None \<Rightarrow> if k \<in> set objectPrototypeProps then JNative k else JUndefined)"

definition inOp :: "string \<Rightarrow> registry \<Rightarrow> bool" where
  "inOp k obj = (k \<in> fst ` set obj \<or> k \<in> set objectPrototypeProps)"

text \<open>
  The global defaults:
  \<^verbatim>\<open>Immutable.fromJS({ behaviors: { dasherizeOutput: { enabled: true } } })\<close>
\<close>

definition globalResourceDefaults :: "(key \<times> jsval) list" where
  "globalResourceDefaults =
     fromJS_props
       [(''behaviors'', JObject [(''dasherizeOutput'', JObject [(''enabled'', JBool True)])])]"

text \<open>
  The first loop of the constructor collects the nodes, the roots and the edges from a
  parent to its children. \<open>typeDescriptions\<close> is the list of the properties that
  \<open>for (const typeName in typeDescriptions)\<close> visits, in that order; \<open>edges\<close> maps a
  parent's name to the object whose keys are its children.

  Three inputs are outside the model, because the code then reads or writes a built-in
  object: a type named \<open>__proto__\<close>, a \<open>parentType\<close> that names a member of
  \<open>Object.prototype\<close> (for which \<open>edges[nodeParentType] || {}\<close> is that member), and a
  truthy \<open>parentType\<close> that is not a string.
\<close>

type_synonym edges = "(string \<times> (string \<times> bool) list) list"

type_synonym typeDescriptions = "(string \<times> (string \<times> jsval) list) list"

definition addEdge :: "edges \<Rightarrow> string \<Rightarrow> string \<Rightarrow> edges" where
  "addEdge es p c =
     assign es p (assign (case map_of es p of Some cs \<Rightarrow> cs | None \<Rightarrow> []) c True)"

fun collectGraph ::
  "typeDescriptions \<Rightarrow> string list \<times> string list \<times> edges
     \<Rightarrow> error + (string list \<times> string list \<times> edges)" where
  "collectGraph [] g = Inr g"
| "collectGraph ((typeName, desc) # rest) (nodes, roots, es) =
     (if typeName = ''__proto__'' then Inl (OutsideModel ''a type named __proto__'')
      else
        (let nodeParentType = ownProp desc ''parentType'' in
         if truthy nodeParentType then
           (case nodeParentType of
              JString p \<Rightarrow>
                if p \<in> set objectPrototypeProps
                then Inl (OutsideModel ''a parentType that names a member of Object.prototype'')
                else collectGraph rest (nodes @ [typeName], roots, addEdge es p typeName)
            | _ \<Rightarrow> Inl (OutsideModel ''a parentType that is not a string''))
         else collectGraph rest (nodes @ [typeName], roots @ [typeName], es)))"

text \<open>
  The second loop, \<open>typeRegistrationOrder.forEach\<close>, registers the types in the order
  the sort returned; \<open>registerType\<close> is its callback. Reading \<open>parentType\<close> of a description that does not exist, and
  calling \<open>mergeDeep\<close> on a parent that is not registered, throw a \<open>TypeError\<close>.
\<close>

definition registerType ::
  "typeDescriptions \<Rightarrow> (key \<times> jsval) list \<Rightarrow> registry \<Rightarrow> string \<Rightarrow> error + registry" where
  "registerType tds descriptionDefaults reg typeName =
     (case map_of tds typeName of
        None \<Rightarrow>
          if typeName \<in> set objectPrototypeProps
          then Inl (OutsideModel ''a type name that is a member of Object.prototype'')
          else Inl (TypeError ''Cannot read property parentType of undefined'')
      | Some desc \<Rightarrow>
          (let parentType = ownProp desc ''parentType'';
               thisDescriptionRaw = fromJS (JObject desc)
           in case Map_mergeDeep descriptionDefaults thisDescriptionRaw of
                Inl e \<Rightarrow> Inl e
              | Inr thisDescriptionMerged \<Rightarrow>
                  if truthy parentType then
                    (case parentType of
                       JString p \<Rightarrow>
                         (case getProp reg p of
                            ImmMap parent \<Rightarrow>
                              (case Map_mergeDeep parent thisDescriptionRaw of
                                 Inl e \<Rightarrow> Inl e
                               | Inr merged \<Rightarrow>
                                   (case call_get thisDescriptionRaw ''labelMappers'' of
                                      Inl e \<Rightarrow> Inl e
                                    | Inr own \<Rightarrow>
                                        Inr (assign reg typeName
                                               (ImmMap (Map_set merged (KStr ''labelMappers'') own)))))
                          | _ \<Rightarrow> Inl (TypeError ''Cannot read property mergeDeep of undefined''))
                     | _ \<Rightarrow> Inl (OutsideModel ''a parentType that is not a string''))
                  else Inr (assign reg typeName (ImmMap thisDescriptionMerged))))"

fun registerTypes ::
  "typeDescriptions \<Rightarrow> (key \<times> jsval) list \<Rightarrow> string list \<Rightarrow> registry \<Rightarrow> error + registry" where
  "registerTypes tds descriptionDefaults [] reg = Inr reg"
| "registerTypes tds descriptionDefaults (typeName # rest) reg =
     (case registerType tds descriptionDefaults reg typeName of
        Inl e \<Rightarrow> Inl e
      | Inr reg' \<Rightarrow> registerTypes tds descriptionDefaults rest reg')"

text \<open>
  The constructor. \<open>pseudoTopSort\<close> is imported from \<open>util/misc\<close>, which is not among
  the sources: the constructor takes the sort as a parameter.
\<close>

type_synonym sorter = "string list \<Rightarrow> edges \<Rightarrow> string list \<Rightarrow> error + string list"

definition typeRegistrationOrder :: "sorter \<Rightarrow> typeDescriptions \<Rightarrow> error + string list" where
  "typeRegistrationOrder pseudoTopSort tds =
     (case collectGraph tds ([], [], []) of
        Inl e \<Rightarrow> Inl e
      | Inr (nodes, roots, es) \<Rightarrow> pseudoTopSort nodes es roots)"

definition ResourceTypeRegistry :: "sorter \<Rightarrow> typeDescriptions \<Rightarrow> jsval \<Rightarrow> error + registry" where
  "ResourceTypeRegistry pseudoTopSort tds descriptionDefaults =
     (case Map_mergeDeep globalResourceDefaults descriptionDefaults of
        Inl e \<Rightarrow> Inl e
      | Inr defaults \<Rightarrow>
          (case typeRegistrationOrder pseudoTopSort tds of
             Inl e \<Rightarrow> Inl e
           | Inr order \<Rightarrow> registerTypes tds defaults order []))"

text \<open>
  The accessors. The class body declares the per-field getters through \<open>doGet\<close>, and the
  loop over \<open>autoGetterProps\<close> that follows the class replaces each of them on the
  prototype by \<open>makeGetter(propName)\<close> when the module is loaded: a call of a getter runs
  \<open>makeGetter\<close>. \<open>typeNames\<close> lists the names in the order of their registration, which
  is the order of \<open>Object.keys\<close> for names that are not array indices.
\<close>

definition type :: "registry \<Rightarrow> string \<Rightarrow> error + jsval" where
  "type reg typeName =
     (case bind_maybe (Maybe (getProp reg typeName)) call_toJS of
        Inl e \<Rightarrow> Inl e
      | Inr r \<Rightarrow> Inr (unwrap r))"

definition hasType :: "registry \<Rightarrow> string \<Rightarrow> bool" where
  "hasType reg typeName = inOp typeName reg"

definition typeNames :: "registry \<Rightarrow> string list" where
  "typeNames reg = map fst reg"

definition makeGetter :: "string \<Rightarrow> registry \<Rightarrow> string \<Rightarrow> error + jsval" where
  "makeGetter attrName reg t =
     (case bind_maybe (Maybe (getProp reg t)) (\<lambda>it. call_get it attrName) of
        Inl e \<Rightarrow> Inl e
      | Inr r1 \<Rightarrow>
          (case bind_maybe r1
                  (\<lambda>it. case it of
                           ImmMap m \<Rightarrow> call_toJS it
                         | ImmList xs \<Rightarrow> call_toJS it
                         | _ \<Rightarrow> Inr it) of
             Inl e \<Rightarrow> Inl e
           | Inr r2 \<Rightarrow> Inr (unwrap r2)))"

definition autoGetterProps :: "string list" where
  "autoGetterProps =
     [''dbAdapter'', ''beforeSave'', ''beforeRender'', ''behaviors'',
      ''labelMappers'', ''defaultIncludes'', ''info'', ''parentType'']"

definition dbAdapter :: "registry \<Rightarrow> string \<Rightarrow> error + jsval" where
  "dbAdapter = makeGetter ''dbAdapter''"

definition beforeSave :: "registry \<Rightarrow> string \<Rightarrow> error + jsval" where
  "beforeSave = makeGetter ''beforeSave''"

definition beforeRender :: "registry \<Rightarrow> string \<Rightarrow> error + jsval" where
  "beforeRender = makeGetter ''beforeRender''"

definition behaviors :: "registry \<Rightarrow> string \<Rightarrow> error + jsval" where
  "behaviors = makeGetter ''behaviors''"

definition labelMappers :: "registry \<Rightarrow> string \<Rightarrow> error + jsval" where
  "labelMappers = makeGetter ''labelMappers''"

definition defaultIncludes :: "registry \<Rightarrow> string \<Rightarrow> error + jsval" where
  "defaultIncludes = makeGetter ''defaultIncludes''"

definition info :: "registry \<Rightarrow> string \<Rightarrow> error + jsval" where
  "info = makeGetter ''info''"

definition parentType :: "registry \<Rightarrow> string \<Rightarrow> error + jsval" where
  "parentType = makeGetter ''parentType''"

text \<open>
  \<open>urlTemplates(type)\<close>: with a truthy argument, the templates of that type; without
  one (or with the empty string), an object with the templates of every registered type.
\<close>

definition urlTemplatesOf :: "registry \<Rightarrow> string \<Rightarrow> error + jsval" where
  "urlTemplatesOf reg t =
     (case bind_maybe (Maybe (getProp reg t)) (\<lambda>it. call_get it ''urlTemplates'') of
        Inl e \<Rightarrow> Inl e
      | Inr r1 \<Rightarrow>
          (case bind_maybe r1 call_toJS of
             Inl e \<Rightarrow> Inl e
           | Inr r2 \<Rightarrow> Inr (unwrap r2)))"

fun urlTemplatesAll :: "registry \<Rightarrow> string list \<Rightarrow> (string \<times> jsval) list \<Rightarrow> error + jsval" where
  "urlTemplatesAll reg [] prev = Inr (JObject prev)"
| "urlTemplatesAll reg (typeName # rest) prev =
     (if typeName = [] then Inl (OutsideModel ''a type named by the empty string'')
      else case urlTemplatesOf reg typeName of
             Inl e \<Rightarrow> Inl e
           | Inr v \<Rightarrow> urlTemplatesAll reg rest (assign prev typeName v))"

definition urlTemplates :: "registry \<Rightarrow> string option \<Rightarrow> error + jsval" where
  "urlTemplates reg t =
     (case t of
        Some n \<Rightarrow> if n \<noteq> [] then urlTemplatesOf reg n else urlTemplatesAll reg (typeNames reg) []
      | None \<Rightarrow> urlTemplatesAll reg (typeNames reg) [])"

section \<open>The order of registration\<close>

text \<open>
  Modelled from the spec: \<open>pseudoTopSort\<close> of \<open>util/misc\<close>, which is not among the
  sources. The spec's contract: given the nodes, the edges from a parent to its children
  and the roots, return the nodes in an order where every node comes after its parent,
  siblings in their input order; fail at once, naming the parent, when an edge starts at a
  parent that is not a node; and defend against a cycle by reporting an error when nodes
  are visited again and none has its parent resolved. The model resolves in passes: the
  roots first, and in each pass the pending nodes, in input order, whose parent was
  resolved by an earlier pass.
\<close>

definition hasChild :: "edges \<Rightarrow> string \<Rightarrow> string \<Rightarrow> bool" where
  "hasChild es n p = (case map_of es p of Some cs \<Rightarrow> n \<in> fst ` set cs | None \<Rightarrow> False)"

definition parentOf :: "edges \<Rightarrow> string \<Rightarrow> string option" where
  "parentOf es n = (case filter (hasChild es n) (map fst es) of [] \<Rightarrow> None | p # ps \<Rightarrow> Some p)"

definition ready :: "edges \<Rightarrow> string list \<Rightarrow> string list \<Rightarrow> string list" where
  "ready es resolved pending =
     filter (\<lambda>n. case parentOf es n of Some p \<Rightarrow> p \<in> set resolved | None \<Rightarrow> False) pending"

function resolveOrder :: "edges \<Rightarrow> string list \<Rightarrow> string list \<Rightarrow> error + string list" where
  "resolveOrder es resolved pending =
     (if pending = [] then Inr resolved
      else if ready es resolved pending = []
        then Inl (ConfigError (''cyclic parentType at '' @ hd pending))
        else resolveOrder es (resolved @ ready es resolved pending)
               (filter (\<lambda>n. n \<notin> set (ready es resolved pending)) pending))"
  by pat_completeness auto
termination
proof (relation "measure (\<lambda>(es, resolved, pending). length pending)")
  show "wf (measure (\<lambda>(es, resolved, pending). length pending))" by simp
next
  fix es :: edges and resolved pending :: "string list"
  assume "pending \<noteq> []" and r: "ready es resolved pending \<noteq> []"
  then obtain x where x: "x \<in> set (ready es resolved pending)"
    by (cases "ready es resolved pending") auto
  then have "x \<in> set pending" by (auto simp: ready_def)
  with x have "length (filter (\<lambda>n. n \<notin> set (ready es resolved pending)) pending) < length pending"
    by (intro length_filter_less [of x]) auto
  then show "((es, resolved @ ready es resolved pending,
         filter (\<lambda>n. n \<notin> set (ready es resolved pending)) pending), (es, resolved, pending))
       \<in> measure (\<lambda>(es, resolved, pending). length pending)" by simp
qed

definition pseudoTopSort :: sorter where
  "pseudoTopSort nodes es roots =
     (case find (\<lambda>(p, cs). p \<notin> set nodes) es of
        Some (p, cs) \<Rightarrow> Inl (ConfigError (''parentType '' @ p @ '' is not a registered type''))
      | None \<Rightarrow> resolveOrder es roots (filter (\<lambda>n. n \<notin> set roots) nodes))"

section \<open>Plain values and example inputs\<close>

text \<open>
  A plain value is what a description is written with: primitives, functions, instances,
  arrays and objects with distinct keys, and no Immutable collection inside.
\<close>

fun plain :: "jsval \<Rightarrow> bool"
  and plain_items :: "jsval list \<Rightarrow> bool"
  and plain_props :: "(string \<times> jsval) list \<Rightarrow> bool" where
  "plain (JArray xs) = plain_items xs"
| "plain (JObject kvs) = (distinct (map fst kvs) \<and> plain_props kvs)"
| "plain (ImmList xs) = False"
| "plain (ImmMap kvs) = False"
| "plain v = True"
| "plain_items [] = True"
| "plain_items (x # xs) = (plain x \<and> plain_items xs)"
| "plain_props [] = True"
| "plain_props ((k, v) # kvs) = (plain v \<and> plain_props kvs)"

text \<open>The values that \<open>deepMerger\<close> merges rather than replaces.\<close>

definition isCollection :: "jsval \<Rightarrow> bool" where
  "isCollection v = (case v of ImmMap m \<Rightarrow> True | ImmList xs \<Rightarrow> True | _ \<Rightarrow> False)"

text \<open>A Map whose keys are distinct strings, as \<open>fromJS\<close> of an object is.\<close>

definition stringKeyed :: "(key \<times> jsval) list \<Rightarrow> bool" where
  "stringKeyed m =
     (distinct (map fst m) \<and> list_all (\<lambda>e. case fst e of KStr s \<Rightarrow> True | KNum n \<Rightarrow> False) m)"

text \<open>
  Three types, the first a subtype of the second. The parent declares a label mapper, an
  info with two fields and two default includes; the child declares an info that
  overrides one field, and one default include; the third type declares nothing.
\<close>

definition exampleTypes :: typeDescriptions where
  "exampleTypes =
     [(''schools'',
         [(''parentType'', JString ''organizations''),
          (''info'', JObject [(''description'', JString ''A school.'')]),
          (''defaultIncludes'', JArray [JString ''principal''])]),
      (''organizations'',
         [(''labelMappers'', JObject [(''mine'', JFunction 1)]),
          (''info'', JObject [(''description'', JString ''An organization.''),
                              (''example'', JString ''State Government'')]),
          (''defaultIncludes'', JArray [JString ''liaisons'', JString ''departments'']),
          (''dbAdapter'', JInstance 7)]),
      (''people'', [])]"

definition schoolsDescription :: "(string \<times> jsval) list" where
  "schoolsDescription =
     [(''parentType'', JString ''organizations''),
      (''info'', JObject [(''description'', JString ''A school.'')]),
      (''defaultIncludes'', JArray [JString ''principal''])]"

definition organizationsMerged :: jsval where
  "organizationsMerged =
     ImmMap
       [(KStr ''behaviors'',
           ImmMap [(KStr ''dasherizeOutput'', ImmMap [(KStr ''enabled'', JBool True)])]),
        (KStr ''labelMappers'', ImmMap [(KStr ''mine'', JFunction 1)]),
        (KStr ''info'', ImmMap [(KStr ''description'', JString ''An organization.''),
                                (KStr ''example'', JString ''State Government'')]),
        (KStr ''defaultIncludes'', ImmList [JString ''liaisons'', JString ''departments'']),
        (KStr ''dbAdapter'', JInstance 7)]"

definition schoolsMerged :: jsval where
  "schoolsMerged =
     ImmMap
       [(KStr ''behaviors'',
           ImmMap [(KStr ''dasherizeOutput'', ImmMap [(KStr ''enabled'', JBool True)])]),
        (KStr ''labelMappers'', JUndefined),
        (KStr ''info'', ImmMap [(KStr ''description'', JString ''A school.''),
                                (KStr ''example'', JString ''State Government'')]),
        (KStr ''defaultIncludes'', ImmList [JString ''principal'', JString ''departments'']),
        (KStr ''dbAdapter'', JInstance 7),
        (KStr ''parentType'', JString ''organizations'')]"

definition exampleRegistry :: registry where
  "exampleRegistry =
     [(''organizations'', organizationsMerged),
      (''people'', ImmMap globalResourceDefaults),
      (''schools'', schoolsMerged)]"

text \<open>
  A parent that declares a label mapper, a child that declares another one, and a child
  that declares none.
\<close>

definition labelledTypes :: typeDescriptions where
  "labelledTypes =
     [(''organizations'', [(''labelMappers'', JObject [(''mine'', JFunction 1)])]),
      (''schools'',
         [(''parentType'', JString ''organizations''),
          (''labelMappers'', JObject [(''nearby'', JFunction 2)])]),
      (''companies'', [(''parentType'', JString ''organizations'')])]"

text \<open>
  Supplied defaults with an info and two default includes, and two root types: one that
  declares an info, one default include and a database adapter, and one that declares
  nothing.
\<close>

definition suppliedDefaults :: jsval where
  "suppliedDefaults =
     JObject [(''info'', JObject [(''description'', JString ''A resource.'')]),
              (''defaultIncludes'', JArray [JString ''account'', JString ''roles''])]"

definition peopleDescription :: "(string \<times> jsval) list" where
  "peopleDescription =
     [(''info'', JObject [(''example'', JString ''Jane'')]),
      (''defaultIncludes'', JArray [JString ''address'']),
      (''dbAdapter'', JInstance 7)]"

definition rootTypes :: typeDescriptions where
  "rootTypes = [(''people'', peopleDescription), (''tags'', [])]"

text \<open>
  A parent whose info holds a description and a list of examples, and a child whose info
  declares a list of examples of its own.
\<close>

definition listedInfoTypes :: typeDescriptions where
  "listedInfoTypes =
     [(''organizations'',
         [(''info'', JObject [(''description'', JString ''An organization.''),
                              (''examples'', JArray [JString ''State Government'',
                                                     JString ''City Council''])])]),
      (''schools'',
         [(''parentType'', JString ''organizations''),
          (''info'', JObject [(''examples'', JArray [JString ''Primary School''])])])]"

section \<open>What the registry holds\<close>

text \<open>
  The invariant of the registration loop: every entry of the registry is what the
  callback stores for its type from the registry itself. The entry of a type that
  declares a parent is the parent's entry merged with the type's converted description,
  with \<open>labelMappers\<close> set to the type's own; the entry of any other type is the
  defaults merged with its converted description.
\<close>

definition registered :: "typeDescriptions \<Rightarrow> (key \<times> jsval) list \<Rightarrow> registry \<Rightarrow> bool" where
  "registered tds dd reg \<longleftrightarrow>
     (\<forall>T v. map_of reg T = Some v \<longrightarrow>
        (\<exists>desc. map_of tds T = Some desc \<and>
          (if truthy (ownProp desc ''parentType'')
           then \<exists>p parent merged. ownProp desc ''parentType'' = JString p
               \<and> map_of reg p = Some (ImmMap parent) \<and> isPlainObj desc
               \<and> mergeIntoMap parent (fromJS_props desc) = Inr merged
               \<and> v = ImmMap (Map_set merged (KStr ''labelMappers'')
                               (fromJS (ownProp desc ''labelMappers'')))
           else \<exists>w. mergeIntoMap dd (fromJS_props desc) = Inr w \<and> v = ImmMap w)))"

section \<open>Type hierarchies\<close>

text \<open>
  The notions that the statements about the order of registration use: the parent a
  description declares (a truthy string \<open>parentType\<close>), the parent of a type name in the
  descriptions, the index of an element in a list as \<open>indexOf\<close> counts it, whether a
  type reaches a root by following parents, the ancestors of a type, and the two ways a
  hierarchy is invalid: a declared parent that is not among the type names, and a type
  that is its own ancestor. \<open>rootsOf\<close> and \<open>edgesOf\<close> are the roots and the edges that
  the constructor's first loop collects, and \<open>reach\<close> is reaching a set of nodes along a
  parent function.
\<close>

declare resolveOrder.simps [simp del]

definition declaredParent :: "(string \<times> jsval) list \<Rightarrow> string option" where
  "declaredParent desc =
     (case ownProp desc ''parentType'' of
        JString p \<Rightarrow> if p = [] then None else Some p
      | _ \<Rightarrow> None)"

definition indexOf :: "'a list \<Rightarrow> 'a \<Rightarrow> nat" where
  "indexOf xs x = length (takeWhile (\<lambda>y. y \<noteq> x) xs)"

primrec reachesRoot :: "typeDescriptions \<Rightarrow> nat \<Rightarrow> string \<Rightarrow> bool" where
  "reachesRoot tds 0 T =
     (case map_of tds T of None \<Rightarrow> False | Some desc \<Rightarrow> declaredParent desc = None)"
| "reachesRoot tds (Suc n) T =
     (case map_of tds T of
        None \<Rightarrow> False
      | Some desc \<Rightarrow> (case declaredParent desc of None \<Rightarrow> True | Some P \<Rightarrow> reachesRoot tds n P))"

definition parentIn :: "typeDescriptions \<Rightarrow> string \<Rightarrow> string option" where
  "parentIn tds T = (case map_of tds T of None \<Rightarrow> None | Some desc \<Rightarrow> declaredParent desc)"

fun edgesOf :: "typeDescriptions \<Rightarrow> edges \<Rightarrow> edges" where
  "edgesOf [] es = es"
| "edgesOf ((T, desc) # rest) es =
     edgesOf rest (case declaredParent desc of Some P \<Rightarrow> addEdge es P T | None \<Rightarrow> es)"

definition rootsOf :: "typeDescriptions \<Rightarrow> string list" where
  "rootsOf tds = map fst (filter (\<lambda>(T, desc). declaredParent desc = None) tds)"

primrec reach :: "(string \<Rightarrow> string option) \<Rightarrow> string set \<Rightarrow> nat \<Rightarrow> string \<Rightarrow> bool" where
  "reach par R 0 n = (n \<in> R)"
| "reach par R (Suc k) n =
     (n \<in> R \<or> (case par n of Some p \<Rightarrow> reach par R k p | None \<Rightarrow> False))"

primrec ancestor :: "typeDescriptions \<Rightarrow> nat \<Rightarrow> string \<Rightarrow> string option" where
  "ancestor tds 0 T = Some T"
| "ancestor tds (Suc k) T =
     (case parentIn tds T of None \<Rightarrow> None | Some P \<Rightarrow> ancestor tds k P)"

definition missingParent :: "typeDescriptions \<Rightarrow> bool" where
  "missingParent tds =
     list_ex (\<lambda>(T, desc). case declaredParent desc of Some P \<Rightarrow> P \<notin> fst ` set tds | None \<Rightarrow> False) tds"

definition cyclicParent :: "typeDescriptions \<Rightarrow> bool" where
  "cyclicParent tds =
     list_ex (\<lambda>T. list_ex (\<lambda>k. ancestor tds (Suc k) T = Some T) [0..<length tds]) (map fst tds)"

text \<open>
  A hierarchy with two roots, two children of the first root, declared around it, and a
  grandchild; a hierarchy with a missing parent; and a hierarchy with a cycle.
\<close>

definition exampleHierarchy :: typeDescriptions where
  "exampleHierarchy =
     [(''schools'', [(''parentType'', JString ''organizations'')]),
      (''organizations'', []),
      (''companies'', [(''parentType'', JString ''organizations'')]),
      (''universities'', [(''parentType'', JString ''schools'')]),
      (''people'', [(''parentType'', JNull)])]"

definition exampleMissingParent :: typeDescriptions where
  "exampleMissingParent =
     [(''schools'', [(''parentType'', JString ''organizations'')]),
      (''people'', [])]"

definition exampleCycle :: typeDescriptions where
  "exampleCycle =
     [(''schools'', [(''parentType'', JString ''universities'')]),
      (''universities'', [(''parentType'', JString ''schools'')]),
      (''people'', [])]"

section \<open>The accessors over a heap\<close>

text \<open>
  Whether an accessor returns a new object or one that the registry holds is a question
  of identity, so the accessors are modelled a second time over a heap. A heap is a list
  of cells and an address is an index into it; a new object is a cell appended at the
  end. A value is a primitive, a reference to a cell, or a built-in member of
  \<open>Object.prototype\<close>. A cell is a plain object, a plain array, or any other object (a
  function, a class instance), which \<open>fromJS\<close> leaves as it is. A stored description is
  a tree of Maps and Lists whose leaves are values. The library has no operation that
  changes a Map or a List, so the model holds them as values and not as cells: the
  registry's state is a list of stored descriptions. What a caller can change is the cells
  that it holds a reference to; which references the accessors hand out is what the
  statements are about.
\<close>

datatype prim = PUndefined | PNull | PBool bool | PNumber int | PString string

datatype hval = HPrim prim | HRef nat | HNative string

datatype cell =
    PlainObject "(string \<times> hval) list"
  | PlainArray "hval list"
  | OtherObject "(string \<times> hval) list"

type_synonym heap = "cell list"

datatype stored = SVal hval | SList "stored list" | SMap "(key \<times> stored) list"

text \<open>
  \<open>toJS\<close> over the heap: every Map becomes a new plain object and every List a new plain
  array, the members first; a leaf is returned as it is, so a reference stays the
  reference it was. \<open>convert s n\<close> gives the value and the new cells when the first free
  address is \<open>n\<close>.
\<close>

fun convert :: "stored \<Rightarrow> nat \<Rightarrow> hval \<times> cell list"
  and convertItems :: "stored list \<Rightarrow> nat \<Rightarrow> hval list \<times> cell list"
  and convertEntries :: "(key \<times> stored) list \<Rightarrow> nat \<Rightarrow> (string \<times> hval) list
        \<Rightarrow> (string \<times> hval) list \<times> cell list" where
  "convert (SVal v) n = (v, [])"
| "convert (SList xs) n =
     (case convertItems xs n of (vs, cells) \<Rightarrow> (HRef (n + length cells), cells @ [PlainArray vs]))"
| "convert (SMap kvs) n =
     (case convertEntries kvs n [] of
        (obj, cells) \<Rightarrow> (HRef (n + length cells), cells @ [PlainObject obj]))"
| "convertItems [] n = ([], [])"
| "convertItems (x # xs) n =
     (case convert x n of
        (v, c1) \<Rightarrow> (case convertItems xs (n + length c1) of (vs, c2) \<Rightarrow> (v # vs, c1 @ c2)))"
| "convertEntries [] n obj = (obj, [])"
| "convertEntries ((k, x) # kvs) n obj =
     (case convert x n of
        (v, c1) \<Rightarrow>
          (case convertEntries kvs (n + length c1) (assign obj (keyString k) v) of
             (obj', c2) \<Rightarrow> (obj', c1 @ c2)))"

definition toJS_heap :: "stored \<Rightarrow> heap \<Rightarrow> hval \<times> heap" where
  "toJS_heap s h = (case convert s (length h) of (v, cells) \<Rightarrow> (v, h @ cells))"

text \<open>The store \<open>this[typesKey]\<close>, the Maybe wrapper and the method calls, as before.\<close>

type_synonym hregistry = "(string \<times> stored) list"

definition getSlot :: "hregistry \<Rightarrow> string \<Rightarrow> stored" where
  "getSlot reg k =
     (case map_of reg k of
        Some s \<Rightarrow> s
      | None \<Rightarrow> if k \<in> set objectPrototypeProps then SVal (HNative k) else SVal (HPrim PUndefined))"

definition Maybe_h :: "stored \<Rightarrow> stored option" where
  "Maybe_h x = (if x = SVal (HPrim PUndefined) then None else Some x)"

fun bind_h :: "stored option \<Rightarrow> (stored \<Rightarrow> heap \<Rightarrow> error + stored \<times> heap) \<Rightarrow> heap
    \<Rightarrow> error + stored option \<times> heap" where
  "bind_h None f h = Inr (None, h)"
| "bind_h (Some x) f h = (case f x h of Inl e \<Rightarrow> Inl e | Inr (y, h') \<Rightarrow> Inr (Maybe_h y, h'))"

fun unwrap_h :: "stored option \<Rightarrow> stored" where
  "unwrap_h None = SVal (HPrim PUndefined)"
| "unwrap_h (Some x) = x"

fun call_toJS_h :: "stored \<Rightarrow> heap \<Rightarrow> error + stored \<times> heap" where
  "call_toJS_h (SVal v) h = Inl (TypeError ''it.toJS is not a function'')"
| "call_toJS_h s h = (case toJS_heap s h of (v, h') \<Rightarrow> Inr (SVal v, h'))"

fun call_get_h :: "string \<Rightarrow> stored \<Rightarrow> heap \<Rightarrow> error + stored \<times> heap" where
  "call_get_h attrName (SMap m) h =
     Inr (case map_of m (KStr attrName) of Some s \<Rightarrow> s | None \<Rightarrow> SVal (HPrim PUndefined), h)"
| "call_get_h attrName (SList xs) h = Inr (SVal (HPrim PUndefined), h)"
| "call_get_h attrName (SVal v) h = Inl (TypeError ''it.get is not a function'')"

text \<open>
  The second step of a getter:
  \<^verbatim>\<open>it instanceof Immutable.Map || it instanceof Immutable.List ? it.toJS() : it\<close>
\<close>

fun convertIfCollection :: "stored \<Rightarrow> heap \<Rightarrow> error + stored \<times> heap" where
  "convertIfCollection (SVal v) h = Inr (SVal v, h)"
| "convertIfCollection s h = call_toJS_h s h"

definition type_h :: "hregistry \<Rightarrow> string \<Rightarrow> heap \<Rightarrow> error + stored \<times> heap" where
  "type_h reg typeName h =
     (case bind_h (Maybe_h (getSlot reg typeName)) call_toJS_h h of
        Inl e \<Rightarrow> Inl e
      | Inr (r, h') \<Rightarrow> Inr (unwrap_h r, h'))"

definition makeGetter_h :: "string \<Rightarrow> hregistry \<Rightarrow> string \<Rightarrow> heap \<Rightarrow> error + stored \<times> heap" where
  "makeGetter_h attrName reg t h =
     (case bind_h (Maybe_h (getSlot reg t)) (call_get_h attrName) h of
        Inl e \<Rightarrow> Inl e
      | Inr (r1, h1) \<Rightarrow>
          (case bind_h r1 convertIfCollection h1 of
             Inl e \<Rightarrow> Inl e
           | Inr (r2, h2) \<Rightarrow> Inr (unwrap_h r2, h2)))"

definition urlTemplatesOf_h :: "hregistry \<Rightarrow> string \<Rightarrow> heap \<Rightarrow> error + stored \<times> heap" where
  "urlTemplatesOf_h reg t h =
     (case bind_h (Maybe_h (getSlot reg t)) (call_get_h ''urlTemplates'') h of
        Inl e \<Rightarrow> Inl e
      | Inr (r1, h1) \<Rightarrow>
          (case bind_h r1 call_toJS_h h1 of
             Inl e \<Rightarrow> Inl e
           | Inr (r2, h2) \<Rightarrow> Inr (unwrap_h r2, h2)))"

text \<open>Reading and writing a property of an object through a reference to it.\<close>

definition readProp :: "heap \<Rightarrow> hval \<Rightarrow> string \<Rightarrow> hval" where
  "readProp h v k =
     (case v of
        HRef a \<Rightarrow>
          if a < length h then
            (case h ! a of
               PlainObject kvs \<Rightarrow> (case map_of kvs k of Some w \<Rightarrow> w | None \<Rightarrow> HPrim PUndefined)
             | OtherObject kvs \<Rightarrow> (case map_of kvs k of Some w \<Rightarrow> w | None \<Rightarrow> HPrim PUndefined)
             | PlainArray vs \<Rightarrow> HPrim PUndefined)
          else HPrim PUndefined
      | _ \<Rightarrow> HPrim PUndefined)"

definition writeProp :: "heap \<Rightarrow> hval \<Rightarrow> string \<Rightarrow> hval \<Rightarrow> heap" where
  "writeProp h v k w =
     (case v of
        HRef a \<Rightarrow>
          if a < length h then
            (case h ! a of
               PlainObject kvs \<Rightarrow> h[a := PlainObject (assign kvs k w)]
             | OtherObject kvs \<Rightarrow> h[a := OtherObject (assign kvs k w)]
             | PlainArray vs \<Rightarrow> h)
          else h
      | _ \<Rightarrow> h)"

text \<open>The addresses that a value, a cell and a stored description refer to.\<close>

fun refsVal :: "hval \<Rightarrow> nat set" where
  "refsVal (HRef a) = {a}"
| "refsVal v = {}"

fun refsCell :: "cell \<Rightarrow> nat set" where
  "refsCell (PlainObject kvs) = (\<Union>v \<in> snd ` set kvs. refsVal v)"
| "refsCell (PlainArray vs) = (\<Union>v \<in> set vs. refsVal v)"
| "refsCell (OtherObject kvs) = (\<Union>v \<in> snd ` set kvs. refsVal v)"

fun refsStored :: "stored \<Rightarrow> nat set"
  and refsItems :: "stored list \<Rightarrow> nat set"
  and refsEntries :: "(key \<times> stored) list \<Rightarrow> nat set" where
  "refsStored (SVal v) = refsVal v"
| "refsStored (SList xs) = refsItems xs"
| "refsStored (SMap kvs) = refsEntries kvs"
| "refsItems [] = {}"
| "refsItems (x # xs) = refsStored x \<union> refsItems xs"
| "refsEntries [] = {}"
| "refsEntries ((k, x) # kvs) = refsStored x \<union> refsEntries kvs"

definition refsVals :: "hval list \<Rightarrow> nat set" where
  "refsVals vs = (\<Union>v \<in> set vs. refsVal v)"

definition refsProps :: "(string \<times> hval) list \<Rightarrow> nat set" where
  "refsProps kvs = (\<Union>v \<in> snd ` set kvs. refsVal v)"

definition refsCells :: "cell list \<Rightarrow> nat set" where
  "refsCells cells = (\<Union>c \<in> set cells. refsCell c)"

fun isPlain :: "cell \<Rightarrow> bool" where
  "isPlain (OtherObject kvs) = False"
| "isPlain c = True"

text \<open>
  The three kinds of accessor, and the stored value that each of them reads: \<open>type\<close>
  reads the stored description, a getter and \<open>urlTemplates\<close> read a field of it, and
  all of them read \<open>undefined\<close> when no description is stored under the name.
  \<open>fieldOf\<close> is the field that \<open>it.get(name)\<close> reads.
\<close>

definition fieldOf :: "string \<Rightarrow> stored \<Rightarrow> error + stored" where
  "fieldOf a s =
     (case s of
        SMap m \<Rightarrow> Inr (case map_of m (KStr a) of Some x \<Rightarrow> x | None \<Rightarrow> SVal (HPrim PUndefined))
      | SList xs \<Rightarrow> Inr (SVal (HPrim PUndefined))
      | SVal v \<Rightarrow> Inl (TypeError ''it.get is not a function''))"

datatype accessor = TypeOf | Getter string | UrlTemplatesOf

fun callAccessor :: "accessor \<Rightarrow> hregistry \<Rightarrow> string \<Rightarrow> heap \<Rightarrow> error + stored \<times> heap" where
  "callAccessor TypeOf reg N h = type_h reg N h"
| "callAccessor (Getter attrName) reg N h = makeGetter_h attrName reg N h"
| "callAccessor UrlTemplatesOf reg N h = urlTemplatesOf_h reg N h"

fun readBy :: "accessor \<Rightarrow> hregistry \<Rightarrow> string \<Rightarrow> error + stored" where
  "readBy TypeOf reg N = Inr (getSlot reg N)"
| "readBy (Getter attrName) reg N =
     (if getSlot reg N = SVal (HPrim PUndefined) then Inr (SVal (HPrim PUndefined))
      else fieldOf attrName (getSlot reg N))"
| "readBy UrlTemplatesOf reg N =
     (if getSlot reg N = SVal (HPrim PUndefined) then Inr (SVal (HPrim PUndefined))
      else fieldOf ''urlTemplates'' (getSlot reg N))"

text \<open>
  What it is for a value in a heap to be the conversion of a stored value, every object
  and array of the conversion a cell at an address from \<open>n\<close> on: a leaf is converted to
  itself, the same value and so the same reference; a List to a plain array of the
  conversions of its items; a Map to a plain object that has, under each key, the
  conversion of the entry. The keys of a Map are taken to be distinct as strings
  (\<open>wellKeyed\<close>), as the keys of a Map with string keys are.
\<close>

fun isCollectionS :: "stored \<Rightarrow> bool" where
  "isCollectionS (SVal v) = False"
| "isCollectionS s = True"

fun wellKeyed :: "stored \<Rightarrow> bool"
  and wellKeyedItems :: "stored list \<Rightarrow> bool"
  and wellKeyedEntries :: "(key \<times> stored) list \<Rightarrow> bool" where
  "wellKeyed (SVal v) = True"
| "wellKeyed (SList xs) = wellKeyedItems xs"
| "wellKeyed (SMap kvs) = (distinct (map (\<lambda>e. keyString (fst e)) kvs) \<and> wellKeyedEntries kvs)"
| "wellKeyedItems [] = True"
| "wellKeyedItems (x # xs) = (wellKeyed x \<and> wellKeyedItems xs)"
| "wellKeyedEntries [] = True"
| "wellKeyedEntries ((k, x) # kvs) = (wellKeyed x \<and> wellKeyedEntries kvs)"

definition arrayAt :: "nat \<Rightarrow> heap \<Rightarrow> hval \<Rightarrow> hval list option" where
  "arrayAt n h w =
     (case w of
        HRef a \<Rightarrow>
          if n \<le> a \<and> a < length h
          then (case h ! a of PlainArray vs \<Rightarrow> Some vs | _ \<Rightarrow> None)
          else None
      | _ \<Rightarrow> None)"

definition objectAt :: "nat \<Rightarrow> heap \<Rightarrow> hval \<Rightarrow> (string \<times> hval) list option" where
  "objectAt n h w =
     (case w of
        HRef a \<Rightarrow>
          if n \<le> a \<and> a < length h
          then (case h ! a of PlainObject obj \<Rightarrow> Some obj | _ \<Rightarrow> None)
          else None
      | _ \<Rightarrow> None)"

fun represents :: "nat \<Rightarrow> heap \<Rightarrow> stored \<Rightarrow> hval \<Rightarrow> bool"
  and representsItems :: "nat \<Rightarrow> heap \<Rightarrow> stored list \<Rightarrow> hval list \<Rightarrow> bool"
  and representsEntries :: "nat \<Rightarrow> heap \<Rightarrow> (key \<times> stored) list \<Rightarrow> (string \<times> hval) list \<Rightarrow> bool" where
  "represents n h (SVal v) w = (w = v)"
| "represents n h (SList xs) w =
     (case arrayAt n h w of Some vs \<Rightarrow> representsItems n h xs vs | None \<Rightarrow> False)"
| "represents n h (SMap kvs) w =
     (case objectAt n h w of Some obj \<Rightarrow> representsEntries n h kvs obj | None \<Rightarrow> False)"
| "representsItems n h [] vs = (vs = [])"
| "representsItems n h (x # xs) vs =
     (case vs of [] \<Rightarrow> False | v # vs' \<Rightarrow> represents n h x v \<and> representsItems n h xs vs')"
| "representsEntries n h [] obj = (obj = [])"
| "representsEntries n h ((k, x) # kvs) obj =
     (case obj of
        [] \<Rightarrow> False
      | (s, v) # obj' \<Rightarrow> s = keyString k \<and> represents n h x v \<and> representsEntries n h kvs obj')"

fun isObjectCell :: "cell \<Rightarrow> bool" where
  "isObjectCell (PlainArray vs) = False"
| "isObjectCell c = True"

text \<open>
  A registry whose only type holds a database adapter (a class instance, at address 0),
  an info object and a list of default includes; the heap after \<open>info("organizations")\<close>
  returned a new object at address 1; and that heap after the caller changed the
  description in the returned object.
\<close>

definition adapterHeap :: heap where
  "adapterHeap = [OtherObject [(''connected'', HPrim (PBool False))]]"

definition adapterRegistry :: hregistry where
  "adapterRegistry =
     [(''organizations'',
        SMap [(KStr ''dbAdapter'', SVal (HRef 0)),
              (KStr ''info'', SMap [(KStr ''description'', SVal (HPrim (PString ''An organization.'')))]),
              (KStr ''defaultIncludes'', SList [SVal (HPrim (PString ''liaisons''))])])]"

definition heapAfterInfo :: heap where
  "heapAfterInfo =
     adapterHeap @ [PlainObject [(''description'', HPrim (PString ''An organization.''))]]"

definition heapAfterMutation :: heap where
  "heapAfterMutation = writeProp heapAfterInfo (HRef 1) ''description'' (HPrim (PString ''changed''))"

section \<open>Content negotiation\<close>

text \<open>
  Modelled from the spec: the content negotiation engine, which is not among the sources
  (only its integration tests are). The spec gives it as a stateless decision on the
  headers of a request. A \<open>Content-Type\<close> whose media type is the vendor JSON type is
  rejected when it has a parameter other than \<open>charset\<close>, with status 415 and the error
  title \<open>Invalid Media Type Parameter(s)\<close>; without such a parameter it is accepted. When
  the \<open>Accept\<close> header lists the vendor type and the vendor type is acceptable (its
  quality is not zero), the response's media type is the vendor type. Everything else is
  deferred to the handling of the resource, which the spec leaves out of scope: the
  engine takes it as a function from the request to a response. A quality is in
  thousandths.
\<close>

definition vendorMediaType :: string where
  "vendorMediaType = ''application/vnd.api+json''"

record mediaType =
  baseType :: string
  parameters :: "(string \<times> string) list"

record acceptRange =
  rangeType :: string
  quality :: nat

datatype httpMethod = GET | POST | PATCH | DELETE

record request =
  httpMethod :: httpMethod
  contentType :: "mediaType option"
  accept :: "acceptRange list"
  requestBody :: jsval

record apiError =
  title :: string

datatype responseBody = ErrorsBody "apiError list" | DataBody jsval | EmptyBody

record response =
  status :: nat
  responseType :: "string option"
  body :: responseBody

datatype negotiationResult = Accepted string | Rejected nat string

definition validateContentType :: "mediaType option \<Rightarrow> (nat \<times> string) option" where
  "validateContentType ct =
     (case ct of
        None \<Rightarrow> None
      | Some t \<Rightarrow>
          if baseType t = vendorMediaType \<and> list_ex (\<lambda>p. fst p \<noteq> ''charset'') (parameters t)
          then Some (415, ''Invalid Media Type Parameter(s)'')
          else None)"

definition negotiateContentType :: "acceptRange list \<Rightarrow> string option" where
  "negotiateContentType ranges =
     (if list_ex (\<lambda>r. rangeType r = vendorMediaType \<and> 0 < quality r) ranges
      then Some vendorMediaType
      else None)"

definition negotiate :: "request \<Rightarrow> negotiationResult option" where
  "negotiate req =
     (case validateContentType (contentType req) of
        Some (code, t) \<Rightarrow> Some (Rejected code t)
      | None \<Rightarrow> map_option Accepted (negotiateContentType (accept req)))"

definition respond :: "(request \<Rightarrow> response) \<Rightarrow> request \<Rightarrow> response" where
  "respond handleResource req =
     (case negotiate req of
        Some (Rejected code t) \<Rightarrow>
          \<lparr>status = code, responseType = None, body = ErrorsBody [\<lparr>title = t\<rparr>]\<rparr>
      | Some (Accepted mt) \<Rightarrow> (handleResource req)\<lparr>responseType := Some mt\<rparr>
      | None \<Rightarrow> handleResource req)"

text \<open>
  The requests of the integration tests, with a resource handler that answers a creation
  with 201 and an update with 200, each with a \<open>data\<close> member.
\<close>

definition exampleHandler :: "request \<Rightarrow> response" where
  "exampleHandler req =
     (case httpMethod req of
        POST \<Rightarrow> \<lparr>status = 201, responseType = None, body = DataBody (requestBody req)\<rparr>
      | PATCH \<Rightarrow> \<lparr>status = 200, responseType = None, body = DataBody (requestBody req)\<rparr>
      | _ \<Rightarrow> \<lparr>status = 404, responseType = None, body = ErrorsBody [\<lparr>title = ''Not Found''\<rparr>]\<rparr>)"

definition validOrganization :: jsval where
  "validOrganization =
     JObject [(''data'', JObject [(''type'', JString ''organizations''),
                                  (''attributes'', JObject [(''name'', JString ''Test'')])])]"



definition postAcceptingBoth :: request where
  "postAcceptingBoth =
     \<lparr>httpMethod = POST,
      contentType = Some \<lparr>baseType = vendorMediaType, parameters = []\<rparr>,
      accept = [\<lparr>rangeType = vendorMediaType, quality = 1000\<rparr>,
                \<lparr>rangeType = ''application/json'', quality = 1000\<rparr>],
      requestBody = validOrganization\<rparr>"





section \<open>Properties of the collections\<close>

lemma map_of_assign: "map_of (assign m k v) = (map_of m)(k \<mapsto> v)"
  by (induction m) (auto simp: fun_eq_iff)

lemma fst_set_assign: "fst ` set (assign m k v) = insert k (fst ` set m)"
  by (simp add: dom_map_of_conv_image_fst [symmetric] map_of_assign)

lemma assign_fresh: "k \<notin> fst ` set m \<Longrightarrow> assign m k v = m @ [(k, v)]"
  by (induction m) auto

lemma distinct_assign: "distinct (map fst m) \<Longrightarrow> distinct (map fst (assign m k v))"
  by (induction m) (auto simp: fst_set_assign)

lemma map_of_fromJS_props: "map_of (fromJS_props kvs) (KStr k) = map_option fromJS (map_of kvs k)"
  by (induction kvs) auto

lemma Map_get_fromJS_props: "Map_get (fromJS_props kvs) (KStr k) = fromJS (ownProp kvs k)"
  by (simp add: Map_get_def ownProp_def map_of_fromJS_props split: option.splits)

lemma Map_get_Map_set: "Map_get (Map_set m k v) k = v"
  by (simp add: Map_get_def Map_set_def map_of_assign)

lemma keys_fromJS_props: "map fst (fromJS_props kvs) = map KStr (map fst kvs)"
  by (induction kvs) auto

lemma distinct_fromJS_props: "distinct (map fst kvs) \<Longrightarrow> distinct (map fst (fromJS_props kvs))"
  by (simp add: keys_fromJS_props distinct_map inj_on_def)

lemma KStr_notin_fromJS_props:
  "s \<notin> fst ` set kvs \<Longrightarrow> KStr s \<notin> fst ` set (fromJS_props kvs)"
  by (induction kvs) auto

lemma toJS_not_collection: "\<not> isCollection w \<Longrightarrow> toJS w = w"
  by (cases w) (auto simp: isCollection_def)

lemma fromJS_not_collection: "\<not> isCollection (fromJS v) \<Longrightarrow> fromJS v = v"
  by (cases v) (auto simp: isCollection_def split: if_splits)

text \<open>Converting a plain value to collections and back gives the value again.\<close>

lemma toJS_fromJS_all:
  "plain v \<Longrightarrow> toJS (fromJS v) = v"
  "plain_items xs \<Longrightarrow> toJS_items (fromJS_items xs) = xs"
  "plain_props kvs \<Longrightarrow> distinct (map fst acc @ map fst kvs) \<Longrightarrow>
     toJS_entries (fromJS_props kvs) acc = acc @ kvs"
proof (induction v and xs and kvs arbitrary: and and acc rule: plain_plain_items_plain_props.induct)
  case (2 kvs)
  from 2(2) have "plain_props kvs" "distinct (map fst [] @ map fst kvs)" by auto
  from 2(1) [OF this] show ?case by simp
qed (auto simp: assign_fresh)

lemma toJS_cases:
  "(case w of ImmMap m \<Rightarrow> call_toJS w | ImmList xs \<Rightarrow> call_toJS w | _ \<Rightarrow> Inr w) = Inr (toJS w)"
  by (cases w) auto

text \<open>A Map whose keys are distinct strings converts to an object with those keys.\<close>

lemma stringKeyed_iff:
  "stringKeyed m \<longleftrightarrow> distinct (map fst m) \<and> (\<forall>k \<in> fst ` set m. \<exists>s. k = KStr s)"
proof -
  have "(case k of KStr s \<Rightarrow> True | KNum n \<Rightarrow> False) \<longleftrightarrow> (\<exists>s. k = KStr s)" for k
    by (cases k) auto
  then show ?thesis by (auto simp: stringKeyed_def list_all_iff)
qed

lemma stringKeyed_fromJS_props: "distinct (map fst kvs) \<Longrightarrow> stringKeyed (fromJS_props kvs)"
proof -
  assume d: "distinct (map fst kvs)"
  have "fst ` set (fromJS_props kvs) = KStr ` fst ` set kvs"
    using keys_fromJS_props [of kvs] by (metis image_set)
  with distinct_fromJS_props [OF d] show ?thesis by (auto simp: stringKeyed_iff)
qed

lemma map_of_toJS_entries:
  "stringKeyed kvs \<Longrightarrow>
   map_of (toJS_entries kvs acc) s =
     (case map_of kvs (KStr s) of Some v \<Rightarrow> Some (toJS v) | None \<Rightarrow> map_of acc s)"
proof (induction kvs arbitrary: acc)
  case Nil
  then show ?case by simp
next
  case (Cons e kvs)
  obtain k v where e: "e = (k, v)" by (cases e)
  from Cons.prems e obtain s' where k: "k = KStr s'" by (auto simp: stringKeyed_iff)
  from Cons.prems e have sk: "stringKeyed kvs" and nk: "map_of kvs k = None"
    by (auto simp: stringKeyed_iff map_of_eq_None_iff)
  show ?case
    using nk k by (simp add: e Cons.IH [OF sk] map_of_assign split: option.splits)
qed

section \<open>Properties of the merge\<close>

lemma deepMerger_replaces:
  "\<not> isCollection x \<or> \<not> isCollection y \<Longrightarrow> deepMerger x y = Inr y"
  by (cases x; cases y) (auto simp: isCollection_def)

lemma deepMerger_Maps:
  "deepMerger (ImmMap a) (ImmMap b) = Inr z \<longleftrightarrow> (\<exists>m. mergeIntoMap a b = Inr m \<and> z = ImmMap m)"
  by (auto split: sum.splits)

lemma deepMerger_Lists:
  "deepMerger (ImmList a) (ImmList b) = Inr z \<longleftrightarrow> (\<exists>xs. mergeIntoList a b = Inr xs \<and> z = ImmList xs)"
  by (auto split: sum.splits)

text \<open>One step of the merge of a Map, when the merge succeeds.\<close>

lemma mergeIntoMap_Cons:
  "mergeIntoMap a ((k, v) # b) = Inr m \<Longrightarrow>
     \<exists>w. (case map_of a k of None \<Rightarrow> Inr v | Some x \<Rightarrow> deepMerger x v) = Inr w
        \<and> mergeIntoMap (assign a k w) b = Inr m"
  by (auto split: sum.splits)

lemma map_of_mergeIntoMap_other:
  "mergeIntoMap a b = Inr m \<Longrightarrow> k \<notin> fst ` set b \<Longrightarrow> map_of m k = map_of a k"
proof (induction b arbitrary: a)
  case Nil
  then show ?case by simp
next
  case (Cons e b)
  obtain k' v where e: "e = (k', v)" by (cases e)
  with Cons.prems have n: "k \<noteq> k'" "k \<notin> fst ` set b" by auto
  from mergeIntoMap_Cons [OF Cons.prems(1) [unfolded e]]
  obtain w where w: "mergeIntoMap (assign a k' w) b = Inr m" by blast
  from Cons.IH [OF w n(2)] n(1) show ?case by (simp add: map_of_assign)
qed

lemma map_of_mergeIntoMap:
  assumes "distinct (map fst b)" "mergeIntoMap a b = Inr m" "map_of b k = Some y"
  shows "(case map_of a k of None \<Rightarrow> Inr y | Some x \<Rightarrow> deepMerger x y) = Inr (Map_get m k)
       \<and> k \<in> fst ` set m"
  using assms
proof (induction b arbitrary: a)
  case Nil
  then show ?case by simp
next
  case (Cons e b)
  obtain k' v where e: "e = (k', v)" by (cases e)
  from Cons.prems(1) e have db: "distinct (map fst b)" and nk: "k' \<notin> fst ` set b"
    by auto
  from mergeIntoMap_Cons [OF Cons.prems(2) [unfolded e]]
  obtain w where w1: "(case map_of a k' of None \<Rightarrow> Inr v | Some x \<Rightarrow> deepMerger x v) = Inr w"
    and w2: "mergeIntoMap (assign a k' w) b = Inr m" by blast
  show ?case
  proof (cases "k = k'")
    case True
    with Cons.prems(3) e have yv: "y = v" by simp
    have "map_of m k' = Some w"
      using map_of_mergeIntoMap_other [OF w2 nk] by (simp add: map_of_assign)
    with True yv w1 show ?thesis
      by (auto simp: Map_get_def dom_map_of_conv_image_fst [symmetric])
  next
    case False
    with Cons.prems(3) e have bk: "map_of b k = Some y" by simp
    from Cons.IH [OF db w2 bk] False show ?thesis by (simp add: map_of_assign)
  qed
qed

lemma keys_mergeIntoMap:
  "mergeIntoMap a b = Inr m \<Longrightarrow> fst ` set m = fst ` set a \<union> fst ` set b"
proof (induction b arbitrary: a)
  case Nil
  then show ?case by simp
next
  case (Cons e b)
  obtain k v where e: "e = (k, v)" by (cases e)
  from mergeIntoMap_Cons [OF Cons.prems [unfolded e]]
  obtain w where w: "mergeIntoMap (assign a k w) b = Inr m" by blast
  from Cons.IH [OF w] show ?case by (auto simp: e fst_set_assign)
qed

lemma distinct_mergeIntoMap:
  "mergeIntoMap a b = Inr m \<Longrightarrow> distinct (map fst a) \<Longrightarrow> distinct (map fst m)"
proof (induction b arbitrary: a)
  case Nil
  then show ?case by simp
next
  case (Cons e b)
  obtain k v where e: "e = (k, v)" by (cases e)
  from mergeIntoMap_Cons [OF Cons.prems(1) [unfolded e]]
  obtain w where w: "mergeIntoMap (assign a k w) b = Inr m" by blast
  show ?case
    by (rule Cons.IH [OF w]) (rule distinct_assign [OF Cons.prems(2)])
qed

lemma stringKeyed_mergeIntoMap:
  "stringKeyed a \<Longrightarrow> stringKeyed b \<Longrightarrow> mergeIntoMap a b = Inr m \<Longrightarrow> stringKeyed m"
  by (auto simp: stringKeyed_iff distinct_mergeIntoMap keys_mergeIntoMap)

lemma length_mergeIntoList:
  "mergeIntoList xs ys = Inr zs \<Longrightarrow> length zs = max (length xs) (length ys)"
proof (induction ys arbitrary: xs zs)
  case Nil
  then show ?case by simp
next
  case (Cons y ys)
  then show ?case by (cases xs) (auto split: sum.splits)
qed

lemma nth_mergeIntoList:
  "mergeIntoList xs ys = Inr zs \<Longrightarrow> i < max (length xs) (length ys) \<Longrightarrow>
     (if i < length ys
      then (if i < length xs then deepMerger (xs ! i) (ys ! i) = Inr (zs ! i) else zs ! i = ys ! i)
      else zs ! i = xs ! i)"
proof (induction ys arbitrary: xs zs i)
  case Nil
  then show ?case by simp
next
  case (Cons y ys)
  show ?case
  proof (cases xs)
    case Nil
    with Cons.prems show ?thesis by auto
  next
    case (Cons x xs')
    with Cons.prems obtain z zs' where z: "deepMerger x y = Inr z" "mergeIntoList xs' ys = Inr zs'"
      "zs = z # zs'"
      by (auto split: sum.splits)
    show ?thesis
    proof (cases i)
      case 0
      with Cons z show ?thesis by simp
    next
      case (Suc j)
      with Cons.prems(2) Cons have "j < max (length xs') (length ys)" by simp
      from Cons.IH [OF z(2) this] Suc Cons z(3) show ?thesis by simp
    qed
  qed
qed

text \<open>
  A List merged into a Map: the merge leaves the Map as it is when every element is falsy,
  and fails at the first element that is not.
\<close>

lemma mergeEntries_Inr:
  "mergeEntries m xs = Inr m' \<longleftrightarrow> m' = m \<and> (\<forall>x \<in> set xs. \<not> truthy x)"
  by (induction xs) auto

lemma Map_mergeDeep_fromJS:
  "Map_mergeDeep m (fromJS (JObject kvs)) = mergeIntoMap m (fromJS_props kvs)"
  "Map_mergeDeep m (if isPlainObj kvs then ImmMap (fromJS_props kvs) else JObject kvs)
     = mergeIntoMap m (fromJS_props kvs)"
  by simp_all

section \<open>Properties of the registry\<close>

lemma getProp_ImmMap: "getProp reg p = ImmMap m \<Longrightarrow> map_of reg p = Some (ImmMap m)"
  by (auto simp: getProp_def split: option.splits if_splits)

text \<open>A getter on a registered type reads the field of the stored description.\<close>

lemma makeGetter_own:
  assumes "map_of reg T = Some (ImmMap m)"
  shows "makeGetter a reg T = Inr (toJS (Map_get m (KStr a)))"
proof -
  have g: "getProp reg T = ImmMap m" using assms by (simp add: getProp_def)
  show ?thesis
  proof (cases "Map_get m (KStr a) = JUndefined")
    case True
    then show ?thesis by (simp add: makeGetter_def g Maybe_def)
  next
    case False
    then show ?thesis
      by (simp add: makeGetter_def g Maybe_def toJS_cases)
  qed
qed

lemma type_own:
  assumes "map_of reg T = Some (ImmMap m)"
  shows "type reg T = Inr (toJS (ImmMap m))"
  using assms by (simp add: type_def getProp_def Maybe_def)

text \<open>What one step of the registration stores.\<close>

lemma registerType_Inr:
  assumes "registerType tds dd reg T = Inr reg'"
  shows "\<exists>desc v. map_of tds T = Some desc \<and> reg' = assign reg T (ImmMap v) \<and>
    (if truthy (ownProp desc ''parentType'')
     then \<exists>p parent merged. ownProp desc ''parentType'' = JString p
         \<and> map_of reg p = Some (ImmMap parent) \<and> isPlainObj desc
         \<and> mergeIntoMap parent (fromJS_props desc) = Inr merged
         \<and> v = Map_set merged (KStr ''labelMappers'') (fromJS (ownProp desc ''labelMappers''))
     else mergeIntoMap dd (fromJS_props desc) = Inr v)"
proof -
  from assms obtain desc where d: "map_of tds T = Some desc"
    by (auto simp: registerType_def split: option.splits if_splits)
  from assms d obtain dm where dm: "mergeIntoMap dd (fromJS_props desc) = Inr dm"
    by (auto simp: registerType_def Let_def Map_mergeDeep_fromJS split: sum.splits)
  show ?thesis
  proof (cases "truthy (ownProp desc ''parentType'')")
    case False
    with assms d dm show ?thesis
      by (auto simp: registerType_def Let_def Map_mergeDeep_fromJS)
  next
    case True
    with assms d dm obtain p where p: "ownProp desc ''parentType'' = JString p"
      by (auto simp: registerType_def Let_def Map_mergeDeep_fromJS split: jsval.splits)
    with assms d dm True obtain parent where par: "getProp reg p = ImmMap parent"
      by (auto simp: registerType_def Let_def Map_mergeDeep_fromJS split: jsval.splits)
    from assms d dm True p par obtain merged where
      m: "mergeIntoMap parent (fromJS_props desc) = Inr merged"
      by (auto simp: registerType_def Let_def Map_mergeDeep_fromJS split: sum.splits)
    have pl: "isPlainObj desc"
    proof (rule ccontr)
      assume "\<not> isPlainObj desc"
      with assms d dm True p par m show False
        by (simp add: registerType_def Let_def Map_mergeDeep_fromJS)
    qed
    from assms d dm True p par m pl
    have "reg' = assign reg T (ImmMap (Map_set merged (KStr ''labelMappers'')
                   (fromJS (ownProp desc ''labelMappers''))))"
      by (simp add: registerType_def Let_def Map_mergeDeep_fromJS Map_get_fromJS_props)
    with d True p m pl getProp_ImmMap [OF par] show ?thesis by auto
  qed
qed

lemma registerTypes_names:
  "registerTypes tds dd order reg = Inr reg' \<Longrightarrow> fst ` set reg' = fst ` set reg \<union> set order"
proof (induction order arbitrary: reg)
  case Nil
  then show ?case by simp
next
  case (Cons t rest)
  from Cons.prems(1) obtain reg1 where r1: "registerType tds dd reg t = Inr reg1"
    and r2: "registerTypes tds dd rest reg1 = Inr reg'"
    by (auto split: sum.splits)
  from registerType_Inr [OF r1] obtain w where "reg1 = assign reg t (ImmMap w)" by blast
  with Cons.IH [OF r2] show ?case by (auto simp: fst_set_assign)
qed

text \<open>
  One step of the registration keeps the invariant; a type that is registered again gets
  the entry it had.
\<close>

lemma registered_step:
  assumes I: "registered tds dd reg" and r: "registerType tds dd reg T = Inr reg'"
  shows "registered tds dd reg'"
proof -
  from registerType_Inr [OF r] obtain desc v where d: "map_of tds T = Some desc"
    and reg': "reg' = assign reg T (ImmMap v)"
    and c: "if truthy (ownProp desc ''parentType'')
     then \<exists>p parent merged. ownProp desc ''parentType'' = JString p
         \<and> map_of reg p = Some (ImmMap parent) \<and> isPlainObj desc
         \<and> mergeIntoMap parent (fromJS_props desc) = Inr merged
         \<and> v = Map_set merged (KStr ''labelMappers'') (fromJS (ownProp desc ''labelMappers''))
     else mergeIntoMap dd (fromJS_props desc) = Inr v"
    by blast
  have same: "old = ImmMap v" if "map_of reg T = Some old" for old
  proof (cases "truthy (ownProp desc ''parentType'')")
    case True
    with I that d obtain p parent merged where o: "ownProp desc ''parentType'' = JString p"
      "map_of reg p = Some (ImmMap parent)"
      "mergeIntoMap parent (fromJS_props desc) = Inr merged"
      "old = ImmMap (Map_set merged (KStr ''labelMappers'') (fromJS (ownProp desc ''labelMappers'')))"
      unfolding registered_def by fastforce
    from c True obtain p' parent' merged' where n: "ownProp desc ''parentType'' = JString p'"
      "map_of reg p' = Some (ImmMap parent')"
      "mergeIntoMap parent' (fromJS_props desc) = Inr merged'"
      "v = Map_set merged' (KStr ''labelMappers'') (fromJS (ownProp desc ''labelMappers''))"
      by auto
    from o(1) n(1) have "p' = p" by simp
    with o(2) n(2) have "parent' = parent" by simp
    with o(3) n(3) have "merged' = merged" by simp
    with o(4) n(4) show ?thesis by simp
  next
    case False
    with I that d obtain w where "mergeIntoMap dd (fromJS_props desc) = Inr w" "old = ImmMap w"
      unfolding registered_def by fastforce
    with c False show ?thesis by simp
  qed
  have keep: "map_of reg' X = Some u" if "map_of reg X = Some u" for X u
    using that same by (cases "X = T") (auto simp: reg' map_of_assign)
  have new: "\<exists>desc'. map_of tds X = Some desc' \<and>
          (if truthy (ownProp desc' ''parentType'')
           then \<exists>p parent merged. ownProp desc' ''parentType'' = JString p
               \<and> map_of reg' p = Some (ImmMap parent) \<and> isPlainObj desc'
               \<and> mergeIntoMap parent (fromJS_props desc') = Inr merged
               \<and> u = ImmMap (Map_set merged (KStr ''labelMappers'')
                               (fromJS (ownProp desc' ''labelMappers'')))
           else \<exists>w. mergeIntoMap dd (fromJS_props desc') = Inr w \<and> u = ImmMap w)"
    if u: "map_of reg' X = Some u" for X u
  proof (cases "X = T")
    case True
    with u have uv: "u = ImmMap v" by (simp add: reg' map_of_assign)
    show ?thesis
    proof (cases "truthy (ownProp desc ''parentType'')")
      case t: True
      with c obtain p parent merged where n: "ownProp desc ''parentType'' = JString p"
        "map_of reg p = Some (ImmMap parent)" "isPlainObj desc"
        "mergeIntoMap parent (fromJS_props desc) = Inr merged"
        "v = Map_set merged (KStr ''labelMappers'') (fromJS (ownProp desc ''labelMappers''))"
        by auto
      from keep [OF n(2)] n t d True uv show ?thesis by auto
    next
      case False
      with c d True uv show ?thesis by auto
    qed
  next
    case False
    with u have "map_of reg X = Some u" by (simp add: reg' map_of_assign)
    with I obtain desc' where d': "map_of tds X = Some desc'"
      and c': "if truthy (ownProp desc' ''parentType'')
           then \<exists>p parent merged. ownProp desc' ''parentType'' = JString p
               \<and> map_of reg p = Some (ImmMap parent) \<and> isPlainObj desc'
               \<and> mergeIntoMap parent (fromJS_props desc') = Inr merged
               \<and> u = ImmMap (Map_set merged (KStr ''labelMappers'')
                               (fromJS (ownProp desc' ''labelMappers'')))
           else \<exists>w. mergeIntoMap dd (fromJS_props desc') = Inr w \<and> u = ImmMap w"
      unfolding registered_def by blast
    show ?thesis
    proof (cases "truthy (ownProp desc' ''parentType'')")
      case True
      with c' obtain p parent merged where n: "ownProp desc' ''parentType'' = JString p"
        "map_of reg p = Some (ImmMap parent)" "isPlainObj desc'"
        "mergeIntoMap parent (fromJS_props desc') = Inr merged"
        "u = ImmMap (Map_set merged (KStr ''labelMappers'')
                               (fromJS (ownProp desc' ''labelMappers'')))"
        by auto
      from keep [OF n(2)] n True d' show ?thesis by auto
    next
      case False
      with c' d' show ?thesis by auto
    qed
  qed
  show ?thesis
    unfolding registered_def using new by blast
qed

lemma registerTypes_registered:
  "registerTypes tds dd order reg = Inr reg' \<Longrightarrow> registered tds dd reg \<Longrightarrow> registered tds dd reg'"
proof (induction order arbitrary: reg)
  case Nil
  then show ?case by simp
next
  case (Cons t rest)
  from Cons.prems(1) obtain reg1 where r1: "registerType tds dd reg t = Inr reg1"
    and r2: "registerTypes tds dd rest reg1 = Inr reg'"
    by (auto split: sum.splits)
  from Cons.IH [OF r2 registered_step [OF Cons.prems(2) r1]] show ?case .
qed

text \<open>
  What the constructor returns: a registry that holds exactly the types of the order
  that the sort returned, each with the entry that the callback stores for it.
\<close>

lemma constructor_registered:
  assumes "ResourceTypeRegistry topSort tds descriptionDefaults = Inr reg"
    and "typeRegistrationOrder topSort tds = Inr order"
  shows "\<exists>defaults. Map_mergeDeep globalResourceDefaults descriptionDefaults = Inr defaults
      \<and> registered tds defaults reg \<and> fst ` set reg = set order"
proof -
  from assms obtain dd where dd: "Map_mergeDeep globalResourceDefaults descriptionDefaults = Inr dd"
    and r: "registerTypes tds dd order [] = Inr reg"
    by (auto simp: ResourceTypeRegistry_def split: sum.splits)
  have "registered tds dd []" by (simp add: registered_def)
  from registerTypes_registered [OF r this] registerTypes_names [OF r] dd show ?thesis
    by auto
qed

lemma registered_entry:
  assumes "registered tds dd reg" "T \<in> fst ` set reg" "map_of tds T = Some desc"
  shows "if truthy (ownProp desc ''parentType'')
         then \<exists>p parent merged. ownProp desc ''parentType'' = JString p
             \<and> map_of reg p = Some (ImmMap parent) \<and> isPlainObj desc
             \<and> mergeIntoMap parent (fromJS_props desc) = Inr merged
             \<and> map_of reg T = Some (ImmMap (Map_set merged (KStr ''labelMappers'')
                                      (fromJS (ownProp desc ''labelMappers''))))
         else \<exists>w. mergeIntoMap dd (fromJS_props desc) = Inr w \<and> map_of reg T = Some (ImmMap w)"
proof -
  from assms(2) obtain v where v: "map_of reg T = Some v"
    by (auto simp: dom_map_of_conv_image_fst [symmetric])
  with assms(1,3) show ?thesis
    unfolding registered_def by fastforce
qed

lemma hasType_registered: "T \<in> fst ` set reg \<Longrightarrow> hasType reg T"
  by (simp add: hasType_def inOp_def)


section \<open>Properties of the order of registration\<close>

lemma truthy_declaredParent:
  "truthy (ownProp desc ''parentType'') \<Longrightarrow> ownProp desc ''parentType'' = JString p \<Longrightarrow>
     declaredParent desc = Some p"
  by (auto simp: declaredParent_def)

lemma not_truthy_declaredParent:
  "\<not> truthy (ownProp desc ''parentType'') \<Longrightarrow> declaredParent desc = None"
  by (cases "ownProp desc ''parentType''") (auto simp: declaredParent_def)

lemma collectGraph_Inr:
  "collectGraph tds (nodes0, roots0, es0) = Inr (nodes, roots, es) \<Longrightarrow>
     nodes = nodes0 @ map fst tds \<and> roots = roots0 @ rootsOf tds \<and> es = edgesOf tds es0"
proof (induction tds arbitrary: nodes0 roots0 es0)
  case Nil
  then show ?case by (simp add: rootsOf_def)
next
  case (Cons e tds)
  obtain T desc where e: "e = (T, desc)" by (cases e)
  show ?case
  proof (cases "truthy (ownProp desc ''parentType'')")
    case True
    with Cons.prems e obtain p where p: "ownProp desc ''parentType'' = JString p"
      by (auto simp: Let_def split: if_splits jsval.splits)
    with True have dp: "declaredParent desc = Some p" by (rule truthy_declaredParent)
    from Cons.prems e True p
    have "collectGraph tds (nodes0 @ [T], roots0, addEdge es0 p T) = Inr (nodes, roots, es)"
      by (auto simp: Let_def split: if_splits)
    from Cons.IH [OF this] show ?thesis
      by (simp add: e dp rootsOf_def)
  next
    case False
    then have dp: "declaredParent desc = None" by (rule not_truthy_declaredParent)
    from Cons.prems e False
    have "collectGraph tds (nodes0 @ [T], roots0 @ [T], es0) = Inr (nodes, roots, es)"
      by (auto simp: Let_def split: if_splits)
    from Cons.IH [OF this] show ?thesis
      by (simp add: e dp rootsOf_def)
  qed
qed

lemma hasChild_addEdge:
  "hasChild (addEdge es p c) c' p' = (if p' = p then c' = c \<or> hasChild es c' p else hasChild es c' p')"
  by (auto simp: hasChild_def addEdge_def map_of_assign fst_set_assign split: option.splits)

lemma hasChild_edgesOf:
  "hasChild (edgesOf tds es) c p \<longleftrightarrow>
     hasChild es c p \<or> (\<exists>desc. (c, desc) \<in> set tds \<and> declaredParent desc = Some p)"
proof (induction tds arbitrary: es)
  case Nil
  then show ?case by simp
next
  case (Cons e tds)
  obtain T desc where e: "e = (T, desc)" by (cases e)
  show ?case
    by (cases "declaredParent desc") (auto simp: e Cons.IH hasChild_addEdge)
qed

lemma parentOf_Some: "parentOf es n = Some p \<Longrightarrow> hasChild es n p"
proof -
  assume "parentOf es n = Some p"
  then obtain ps where "filter (hasChild es n) (map fst es) = p # ps"
    by (auto simp: parentOf_def split: list.splits)
  then have "p \<in> set (filter (hasChild es n) (map fst es))" by simp
  then show ?thesis by simp
qed

lemma parentOf_None: "parentOf es n = None \<Longrightarrow> \<not> hasChild es n p"
proof
  assume n: "parentOf es n = None" and h: "hasChild es n p"
  from h have "p \<in> dom (map_of es)"
    by (auto simp: hasChild_def split: option.splits)
  then have "p \<in> fst ` set es" by (simp add: dom_map_of_conv_image_fst)
  with h have "p \<in> set (filter (hasChild es n) (map fst es))" by simp
  moreover from n have "filter (hasChild es n) (map fst es) = []"
    by (simp add: parentOf_def split: list.splits)
  ultimately show False by simp
qed

lemma parentOf_edgesOf:
  assumes "distinct (map fst tds)"
  shows "parentOf (edgesOf tds []) T = parentIn tds T"
proof -
  let ?es = "edgesOf tds []"
  have e: "\<not> hasChild [] T P" for P by (simp add: hasChild_def)
  have S: "hasChild ?es T P \<longleftrightarrow> parentIn tds T = Some P" for P
  proof
    assume "hasChild ?es T P"
    then obtain desc where d: "(T, desc) \<in> set tds" "declaredParent desc = Some P"
      using e by (auto simp: hasChild_edgesOf)
    from assms d(1) have "map_of tds T = Some desc" by (rule map_of_is_SomeI)
    with d(2) show "parentIn tds T = Some P" by (simp add: parentIn_def)
  next
    assume "parentIn tds T = Some P"
    then obtain desc where d: "map_of tds T = Some desc" "declaredParent desc = Some P"
      by (auto simp: parentIn_def split: option.splits)
    from d(1) have "(T, desc) \<in> set tds" by (rule map_of_SomeD)
    with d(2) show "hasChild ?es T P" by (auto simp: hasChild_edgesOf)
  qed
  show ?thesis
  proof (cases "parentOf ?es T")
    case None
    then have "\<forall>P. \<not> hasChild ?es T P" by (auto dest: parentOf_None)
    with S have "parentIn tds T = None" by (cases "parentIn tds T") auto
    with None show ?thesis by simp
  next
    case (Some p)
    then have "hasChild ?es T p" by (rule parentOf_Some)
    with S Some show ?thesis by simp
  qed
qed

lemma keys_edgesOf:
  "fst ` set (edgesOf tds es) =
     fst ` set es \<union> {P. \<exists>T desc. (T, desc) \<in> set tds \<and> declaredParent desc = Some P}"
proof (induction tds arbitrary: es)
  case Nil
  then show ?case by simp
next
  case (Cons e tds)
  obtain T desc where e: "e = (T, desc)" by (cases e)
  show ?case
    by (cases "declaredParent desc") (auto simp: e Cons.IH addEdge_def fst_set_assign)
qed

lemma indexOf_Nil: "indexOf [] x = 0"
  by (simp add: indexOf_def)

lemma indexOf_Cons: "indexOf (y # ys) x = (if y = x then 0 else Suc (indexOf ys x))"
  by (simp add: indexOf_def)

lemma indexOf_less: "indexOf xs x < length xs \<longleftrightarrow> x \<in> set xs"
  by (induction xs) (auto simp: indexOf_Nil indexOf_Cons)

lemma indexOf_le: "indexOf xs x \<le> length xs"
  by (induction xs) (auto simp: indexOf_Nil indexOf_Cons)

lemma indexOf_append:
  "indexOf (xs @ ys) x = (if x \<in> set xs then indexOf xs x else length xs + indexOf ys x)"
  by (induction xs) (auto simp: indexOf_Cons)

lemma indexOf_filter_mono:
  "P a \<Longrightarrow> P b \<Longrightarrow> a \<in> set xs \<Longrightarrow> indexOf xs a < indexOf xs b \<Longrightarrow>
     indexOf (filter P xs) a < indexOf (filter P xs) b"
proof (induction xs)
  case Nil
  then show ?case by simp
next
  case (Cons x xs)
  show ?case
  proof (cases "x = a")
    case True
    with Cons.prems show ?thesis by (auto simp: indexOf_Cons split: if_splits)
  next
    case False
    with Cons.prems have "x \<noteq> b" "a \<in> set xs" "indexOf xs a < indexOf xs b"
      by (auto simp: indexOf_Cons split: if_splits)
    with Cons.IH Cons.prems(1,2) False show ?thesis by (auto simp: indexOf_Cons)
  qed
qed

lemma ready_subset: "set (ready es resolved pending) \<subseteq> set pending"
  by (auto simp: ready_def)

lemma ready_parent:
  "n \<in> set (ready es resolved pending) \<longleftrightarrow>
     n \<in> set pending \<and> (\<exists>p. parentOf es n = Some p \<and> p \<in> set resolved)"
  by (auto simp: ready_def split: option.splits)

lemma resolveOrder_Nil: "resolveOrder es resolved [] = Inr resolved"
  by (simp add: resolveOrder.simps)

lemma resolveOrder_sound:
  "resolveOrder es resolved pending = Inr order \<Longrightarrow> set pending \<inter> set resolved = {} \<Longrightarrow>
   distinct pending \<Longrightarrow>
   \<exists>rest. order = resolved @ rest \<and> set rest = set pending \<and> distinct rest
     \<and> (\<forall>n \<in> set pending. \<exists>p. parentOf es n = Some p \<and> indexOf order p < indexOf order n)"
proof (induction es resolved pending rule: resolveOrder.induct)
  case (1 es resolved pending)
  let ?rd = "ready es resolved pending"
  let ?pend = "filter (\<lambda>n. n \<notin> set ?rd) pending"
  show ?case
  proof (cases "pending = []")
    case True
    with "1.prems"(1) show ?thesis by (simp add: resolveOrder_Nil)
  next
    case False
    with "1.prems"(1) have rd: "?rd \<noteq> []"
      by (auto simp: resolveOrder.simps [of es resolved pending] split: if_splits)
    with False "1.prems"(1) have rec: "resolveOrder es (resolved @ ?rd) ?pend = Inr order"
      by (simp add: resolveOrder.simps [of es resolved pending])
    have disj: "set ?pend \<inter> set (resolved @ ?rd) = {}"
      using "1.prems"(2) by auto
    have dp: "distinct ?pend" using "1.prems"(3) by simp
    from "1.IH" [OF False rd rec disj dp]
    obtain rest' where o: "order = (resolved @ ?rd) @ rest'" and sr: "set rest' = set ?pend"
      and dr: "distinct rest'"
      and par: "\<forall>n \<in> set ?pend. \<exists>p. parentOf es n = Some p \<and> indexOf order p < indexOf order n"
      by blast
    have drd: "distinct ?rd" using "1.prems"(3) by (simp add: ready_def)
    have s1: "set (?rd @ rest') = set pending"
      using sr ready_subset [of es resolved pending] by auto
    have d1: "distinct (?rd @ rest')"
      using drd dr sr by auto
    have p1: "\<exists>p. parentOf es n = Some p \<and> indexOf order p < indexOf order n"
      if n: "n \<in> set pending" for n
    proof (cases "n \<in> set ?rd")
      case True
      then obtain p where p: "parentOf es n = Some p" "p \<in> set resolved"
        by (auto simp: ready_parent)
      from n "1.prems"(2) have nr: "n \<notin> set resolved" by auto
      have "indexOf order p < length resolved"
        using p(2) by (simp add: o indexOf_append indexOf_less)
      moreover have "length resolved \<le> indexOf order n"
        using nr by (simp add: o indexOf_append)
      ultimately show ?thesis using p(1) by auto
    next
      case False
      with n have "n \<in> set ?pend" by simp
      with par show ?thesis by blast
    qed
    from o s1 d1 p1 show ?thesis by auto
  qed
qed

lemma resolveOrder_siblings:
  "resolveOrder es resolved pending = Inr order \<Longrightarrow> set pending \<inter> set resolved = {} \<Longrightarrow>
   distinct pending \<Longrightarrow> a \<in> set pending \<Longrightarrow> b \<in> set pending \<Longrightarrow>
   parentOf es a = parentOf es b \<Longrightarrow> indexOf pending a < indexOf pending b \<Longrightarrow>
   indexOf order a < indexOf order b"
proof (induction es resolved pending rule: resolveOrder.induct)
  case (1 es resolved pending)
  let ?rd = "ready es resolved pending"
  let ?pend = "filter (\<lambda>n. n \<notin> set ?rd) pending"
  from "1.prems"(4) have ne: "pending \<noteq> []" by auto
  with "1.prems"(1) have rd: "?rd \<noteq> []"
    by (auto simp: resolveOrder.simps [of es resolved pending] split: if_splits)
  with ne "1.prems"(1) have rec: "resolveOrder es (resolved @ ?rd) ?pend = Inr order"
    by (simp add: resolveOrder.simps [of es resolved pending])
  have disj: "set ?pend \<inter> set (resolved @ ?rd) = {}"
    using "1.prems"(2) by auto
  have dp: "distinct ?pend" using "1.prems"(3) by simp
  from resolveOrder_sound [OF rec disj dp]
  obtain rest' where o: "order = (resolved @ ?rd) @ rest'" and sr: "set rest' = set ?pend"
    by blast
  have same: "a \<in> set ?rd \<longleftrightarrow> b \<in> set ?rd"
    using "1.prems"(4,5,6) by (simp add: ready_parent)
  show ?case
  proof (cases "a \<in> set ?rd")
    case True
    with same have b: "b \<in> set ?rd" by simp
    have "indexOf ?rd a < indexOf ?rd b"
      unfolding ready_def
      using True b "1.prems"(4,7)
      by (intro indexOf_filter_mono) (auto simp: ready_def)
    moreover have "a \<notin> set resolved" "b \<notin> set resolved"
      using "1.prems"(2,4,5) by auto
    ultimately show ?thesis
      using True b by (simp add: o indexOf_append)
  next
    case False
    with same have b: "b \<notin> set ?rd" by simp
    have i: "indexOf ?pend a < indexOf ?pend b"
      using False b "1.prems"(4,7) by (intro indexOf_filter_mono) auto
    have ia: "a \<in> set ?pend" and ib: "b \<in> set ?pend"
      using False b "1.prems"(4,5) by auto
    show ?thesis
      by (rule "1.IH" [OF ne rd rec disj dp ia ib "1.prems"(6) i])
  qed
qed

lemma reach_mono: "reach par R k n \<Longrightarrow> R \<subseteq> R' \<Longrightarrow> reach par R' k n"
  by (induction k arbitrary: n) (auto split: option.splits)

lemma reach_ready:
  assumes "reach (parentOf es) (set resolved) k n" "n \<in> set pending"
    "set pending \<inter> set resolved = {}"
    "\<forall>m p. m \<in> set pending \<and> parentOf es m = Some p \<longrightarrow> p \<in> set resolved \<union> set pending"
  shows "ready es resolved pending \<noteq> []"
  using assms(1,2)
proof (induction k arbitrary: n)
  case 0
  with assms(3) show ?case by auto
next
  case (Suc k)
  from Suc.prems assms(3) have "n \<notin> set resolved" by auto
  with Suc.prems(1) obtain p where p: "parentOf es n = Some p" "reach (parentOf es) (set resolved) k p"
    by (auto split: option.splits)
  show ?case
  proof (cases "p \<in> set resolved")
    case True
    with p(1) Suc.prems(2) have "n \<in> set (ready es resolved pending)"
      by (simp add: ready_parent)
    then show ?thesis by auto
  next
    case False
    with assms(4) p(1) Suc.prems(2) have "p \<in> set pending" by blast
    with Suc.IH p(2) show ?thesis by blast
  qed
qed

lemma resolveOrder_total:
  "\<forall>n \<in> set pending. reach (parentOf es) (set resolved) k n \<Longrightarrow>
   set pending \<inter> set resolved = {} \<Longrightarrow>
   \<forall>m p. m \<in> set pending \<and> parentOf es m = Some p \<longrightarrow> p \<in> set resolved \<union> set pending \<Longrightarrow>
   \<exists>order. resolveOrder es resolved pending = Inr order"
proof (induction es resolved pending rule: resolveOrder.induct)
  case (1 es resolved pending)
  let ?rd = "ready es resolved pending"
  let ?pend = "filter (\<lambda>n. n \<notin> set ?rd) pending"
  show ?case
  proof (cases "pending = []")
    case True
    then show ?thesis by (simp add: resolveOrder_Nil)
  next
    case False
    then obtain n where n: "n \<in> set pending" by (cases pending) auto
    with "1.prems"(1) have "reach (parentOf es) (set resolved) k n" by blast
    from reach_ready [OF this n "1.prems"(2,3)] have rd: "?rd \<noteq> []" .
    have a: "\<forall>n \<in> set ?pend. reach (parentOf es) (set (resolved @ ?rd)) k n"
      using "1.prems"(1) by (auto intro: reach_mono)
    have b: "set ?pend \<inter> set (resolved @ ?rd) = {}"
      using "1.prems"(2) by auto
    have c: "\<forall>m p. m \<in> set ?pend \<and> parentOf es m = Some p
               \<longrightarrow> p \<in> set (resolved @ ?rd) \<union> set ?pend"
      using "1.prems"(3) by auto
    from "1.IH" [OF False rd a b c] obtain order where
      "resolveOrder es (resolved @ ?rd) ?pend = Inr order" by blast
    with False rd have "resolveOrder es resolved pending = Inr order"
      by (simp add: resolveOrder.simps [of es resolved pending])
    then show ?thesis by blast
  qed
qed

lemma rootsOf_filter:
  "distinct (map fst tds) \<Longrightarrow> rootsOf tds = filter (\<lambda>T. parentIn tds T = None) (map fst tds)"
proof -
  assume d: "distinct (map fst tds)"
  have "filter (\<lambda>T. parentIn tds T = None) (map fst tds)
      = map fst (filter (\<lambda>e. parentIn tds (fst e) = None) tds)"
    by (simp add: filter_map comp_def)
  also have "filter (\<lambda>e. parentIn tds (fst e) = None) tds
      = filter (\<lambda>(T, desc). declaredParent desc = None) tds"
  proof (rule filter_cong [OF refl])
    fix e assume m: "e \<in> set tds"
    obtain T desc where e: "e = (T, desc)" by (cases e)
    from d m [unfolded e] have "map_of tds T = Some desc" by (rule map_of_is_SomeI)
    then show "(parentIn tds (fst e) = None) = (case e of (T, desc) \<Rightarrow> declaredParent desc = None)"
      by (simp add: e parentIn_def)
  qed
  finally show ?thesis by (simp add: rootsOf_def)
qed

lemma parentIn_names: "parentIn tds T = Some P \<Longrightarrow> T \<in> fst ` set tds"
  by (auto simp: parentIn_def split: option.splits dest!: map_of_SomeD intro: rev_image_eqI)

lemma pseudoTopSort_resolve:
  assumes "pseudoTopSort nodes es roots = Inr order"
  shows "resolveOrder es roots (filter (\<lambda>n. n \<notin> set roots) nodes) = Inr order
       \<and> fst ` set es \<subseteq> set nodes"
proof -
  from assms have f: "find (\<lambda>(p, cs). p \<notin> set nodes) es = None"
    by (auto simp: pseudoTopSort_def split: option.splits)
  with assms have "resolveOrder es roots (filter (\<lambda>n. n \<notin> set roots) nodes) = Inr order"
    by (simp add: pseudoTopSort_def)
  moreover from f have "fst ` set es \<subseteq> set nodes"
    by (auto simp: find_None_iff)
  ultimately show ?thesis by simp
qed

lemma registration_order_sound:
  assumes d: "distinct (map fst tds)"
    and g: "collectGraph tds ([], [], []) = Inr g"
    and o: "typeRegistrationOrder pseudoTopSort tds = Inr order"
  shows "set order = fst ` set tds" "distinct order"
    "parentIn tds T = Some P \<Longrightarrow> indexOf order P < indexOf order T"
    "A \<in> fst ` set tds \<Longrightarrow> B \<in> fst ` set tds \<Longrightarrow> parentIn tds A = parentIn tds B \<Longrightarrow>
       indexOf (map fst tds) A < indexOf (map fst tds) B \<Longrightarrow> indexOf order A < indexOf order B"
proof -
  let ?nodes = "map fst tds" and ?roots = "rootsOf tds" and ?es = "edgesOf tds []"
  let ?pending = "filter (\<lambda>n. n \<notin> set ?roots) ?nodes"
  obtain nodes roots es where g3: "g = (nodes, roots, es)" by (cases g) auto
  from collectGraph_Inr [OF g [unfolded g3]]
  have geq: "nodes = ?nodes" "roots = ?roots" "es = ?es" by auto
  from o g have "pseudoTopSort ?nodes ?es ?roots = Inr order"
    by (simp add: typeRegistrationOrder_def g3 geq)
  from pseudoTopSort_resolve [OF this]
  have r: "resolveOrder ?es ?roots ?pending = Inr order" by simp
  have disj: "set ?pending \<inter> set ?roots = {}" by auto
  have dp: "distinct ?pending" using d by simp
  from resolveOrder_sound [OF r disj dp]
  obtain rest where oeq: "order = ?roots @ rest" and sr: "set rest = set ?pending"
    and dr: "distinct rest"
    and par: "\<forall>n \<in> set ?pending. \<exists>p. parentOf ?es n = Some p \<and> indexOf order p < indexOf order n"
    by blast
  have rs: "set ?roots \<subseteq> set ?nodes" by (auto simp: rootsOf_filter [OF d])
  show so: "set order = fst ` set tds"
    using oeq sr rs by auto
  have "distinct ?roots" using d by (simp add: rootsOf_filter)
  with dr sr show "distinct order" by (auto simp: oeq)
  have pend: "T \<in> set ?pending" if "parentIn tds T = Some P" for T P
    using that parentIn_names [OF that] by (auto simp: rootsOf_filter [OF d])
  show "indexOf order P < indexOf order T" if p: "parentIn tds T = Some P"
  proof -
    from par pend [OF p] obtain p' where "parentOf ?es T = Some p'" "indexOf order p' < indexOf order T"
      by blast
    with p show ?thesis by (simp add: parentOf_edgesOf [OF d])
  qed
  show "indexOf order A < indexOf order B"
    if A: "A \<in> fst ` set tds" and B: "B \<in> fst ` set tds"
      and same: "parentIn tds A = parentIn tds B"
      and i: "indexOf (map fst tds) A < indexOf (map fst tds) B"
  proof (cases "parentIn tds A")
    case None
    with same have nb: "parentIn tds B = None" by simp
    from None A have ar: "A \<in> set ?roots" by (simp add: rootsOf_filter [OF d])
    from nb B have br: "B \<in> set ?roots" by (simp add: rootsOf_filter [OF d])
    have "indexOf ?roots A < indexOf ?roots B"
      unfolding rootsOf_filter [OF d]
      using None nb A i by (intro indexOf_filter_mono) auto
    with ar br show ?thesis by (simp add: oeq indexOf_append)
  next
    case (Some P)
    with same have sb: "parentIn tds B = Some P" by simp
    from pend [OF Some] pend [OF sb] have ap: "A \<in> set ?pending" and bp: "B \<in> set ?pending" .
    have ii: "indexOf ?pending A < indexOf ?pending B"
      using ap bp A i by (intro indexOf_filter_mono) auto
    have pe: "parentOf ?es A = parentOf ?es B" using same by (simp add: parentOf_edgesOf [OF d])
    show ?thesis
      by (rule resolveOrder_siblings [OF r disj dp ap bp pe ii])
  qed
qed

lemma reachesRoot_reach:
  assumes d: "distinct (map fst tds)"
  shows "reachesRoot tds k T \<Longrightarrow> reach (parentIn tds) (set (rootsOf tds)) k T"
proof (induction k arbitrary: T)
  case 0
  then obtain desc where "map_of tds T = Some desc" "declaredParent desc = None"
    by (auto split: option.splits)
  then have "parentIn tds T = None" "T \<in> fst ` set tds"
    by (auto simp: parentIn_def dest!: map_of_SomeD intro: rev_image_eqI)
  then show ?case by (simp add: rootsOf_filter [OF d])
next
  case (Suc k)
  then obtain desc where m: "map_of tds T = Some desc" by (auto split: option.splits)
  then have tn: "T \<in> fst ` set tds" by (auto dest!: map_of_SomeD intro: rev_image_eqI)
  show ?case
  proof (cases "declaredParent desc")
    case None
    with m have "parentIn tds T = None" by (simp add: parentIn_def)
    with tn show ?thesis by (simp add: rootsOf_filter [OF d])
  next
    case (Some P)
    with m Suc.prems have "reachesRoot tds k P" by simp
    from Suc.IH [OF this] Some m show ?thesis by (simp add: parentIn_def)
  qed
qed

lemma reachesRoot_parent_registered:
  assumes "reachesRoot tds (length tds) T" "parentIn tds T = Some P"
  shows "P \<in> fst ` set tds"
proof -
  from assms(2) obtain desc where m: "map_of tds T = Some desc" "declaredParent desc = Some P"
    by (auto simp: parentIn_def split: option.splits)
  then have "tds \<noteq> []" by auto
  then obtain n where n: "length tds = Suc n" by (cases tds) auto
  from assms(1) m have "reachesRoot tds n P" by (simp add: n)
  then have "map_of tds P \<noteq> None" by (cases n) (auto split: option.splits)
  then show ?thesis by (auto dest!: map_of_SomeD intro: rev_image_eqI)
qed

lemma registration_order_total:
  assumes d: "distinct (map fst tds)"
    and g: "collectGraph tds ([], [], []) = Inr g"
    and tree: "\<forall>T \<in> fst ` set tds. reachesRoot tds (length tds) T"
  shows "\<exists>order. typeRegistrationOrder pseudoTopSort tds = Inr order"
proof -
  let ?nodes = "map fst tds" and ?roots = "rootsOf tds" and ?es = "edgesOf tds []"
  let ?pending = "filter (\<lambda>n. n \<notin> set ?roots) ?nodes"
  obtain nodes roots es where g3: "g = (nodes, roots, es)" by (cases g) auto
  from collectGraph_Inr [OF g [unfolded g3]]
  have geq: "nodes = ?nodes" "roots = ?roots" "es = ?es" by auto
  have par_reg: "P \<in> fst ` set tds" if "parentIn tds T = Some P" for T P
    using reachesRoot_parent_registered [OF _ that] tree parentIn_names [OF that] by blast
  have keys: "fst ` set ?es \<subseteq> set ?nodes"
  proof
    fix P assume "P \<in> fst ` set ?es"
    then obtain T desc where td: "(T, desc) \<in> set tds" "declaredParent desc = Some P"
      by (auto simp: keys_edgesOf)
    from d td(1) have "map_of tds T = Some desc" by (rule map_of_is_SomeI)
    with td(2) have "parentIn tds T = Some P" by (simp add: parentIn_def)
    from par_reg [OF this] show "P \<in> set ?nodes" by simp
  qed
  then have f: "find (\<lambda>(p, cs). p \<notin> set ?nodes) ?es = None"
    by (force simp: find_None_iff)
  have pe: "parentOf ?es = parentIn tds"
    by (rule ext) (rule parentOf_edgesOf [OF d])
  have a: "\<forall>n \<in> set ?pending. reach (parentOf ?es) (set ?roots) (length tds) n"
    using tree reachesRoot_reach [OF d] by (auto simp: pe)
  have b: "set ?pending \<inter> set ?roots = {}" by auto
  have c: "\<forall>m p. m \<in> set ?pending \<and> parentOf ?es m = Some p \<longrightarrow> p \<in> set ?roots \<union> set ?pending"
    using par_reg by (auto simp: pe)
  from resolveOrder_total [OF a b c] obtain order where
    "resolveOrder ?es ?roots ?pending = Inr order" by blast
  with f have "pseudoTopSort ?nodes ?es ?roots = Inr order" by (simp add: pseudoTopSort_def)
  with g show ?thesis by (auto simp: typeRegistrationOrder_def g3 geq)
qed

lemma resolveOrder_error:
  "resolveOrder es resolved pending = Inl e \<Longrightarrow> \<exists>msg. e = ConfigError msg"
proof (induction es resolved pending rule: resolveOrder.induct)
  case (1 es resolved pending)
  show ?case
  proof (cases "pending = [] \<or> ready es resolved pending = []")
    case True
    with "1.prems" show ?thesis
      by (auto simp: resolveOrder.simps [of es resolved pending] resolveOrder_Nil split: if_splits)
  next
    case False
    with "1.prems" have "resolveOrder es (resolved @ ready es resolved pending)
        (filter (\<lambda>n. n \<notin> set (ready es resolved pending)) pending) = Inl e"
      by (simp add: resolveOrder.simps [of es resolved pending])
    with "1.IH" False show ?thesis by blast
  qed
qed

lemma pseudoTopSort_error:
  "pseudoTopSort nodes es roots = Inl e \<Longrightarrow> \<exists>msg. e = ConfigError msg"
  by (auto simp: pseudoTopSort_def split: option.splits dest: resolveOrder_error)

lemma ancestor_index:
  assumes d: "distinct (map fst tds)"
    and g: "collectGraph tds ([], [], []) = Inr g"
    and o: "typeRegistrationOrder pseudoTopSort tds = Inr order"
  shows "ancestor tds (Suc k) T = Some A \<Longrightarrow> indexOf order A < indexOf order T"
proof (induction k arbitrary: T)
  case 0
  then have "parentIn tds T = Some A" by (auto split: option.splits)
  then show ?case by (rule registration_order_sound(3) [OF d g o])
next
  case (Suc k)
  from Suc.prems obtain P where P: "parentIn tds T = Some P" "ancestor tds (Suc k) P = Some A"
    by (auto split: option.splits)
  from registration_order_sound(3) [OF d g o P(1)] Suc.IH [OF P(2)] show ?case by simp
qed

lemma graph_skeleton:
  "map (\<lambda>(T, desc). (T, declaredParent desc)) tds' = map (\<lambda>(T, desc). (T, declaredParent desc)) tds
   \<Longrightarrow> map fst tds' = map fst tds \<and> rootsOf tds' = rootsOf tds \<and> edgesOf tds' es = edgesOf tds es"
proof (induction tds arbitrary: tds' es)
  case Nil
  then show ?case by (simp add: rootsOf_def)
next
  case (Cons e tds)
  obtain T desc where e: "e = (T, desc)" by (cases e)
  from Cons.prems obtain e' rest where t': "tds' = e' # rest" by (cases tds') auto
  obtain T' desc' where e': "e' = (T', desc')" by (cases e')
  from Cons.prems have h: "T' = T" "declaredParent desc' = declaredParent desc"
    and r: "map (\<lambda>(T, desc). (T, declaredParent desc)) rest
          = map (\<lambda>(T, desc). (T, declaredParent desc)) tds"
    by (auto simp: t' e e')
  from Cons.IH [OF r] h show ?case
    by (auto simp: t' e e' rootsOf_def)
qed

lemma exampleRegistry_built:
  "ResourceTypeRegistry pseudoTopSort exampleTypes (JObject []) = Inr exampleRegistry"
  by code_simp

section \<open>Properties of the accessors over a heap\<close>

lemma refsCells_simps:
  "refsCells [] = {}"
  "refsCells (c1 @ c2) = refsCells c1 \<union> refsCells c2"
  "refsCells [PlainArray vs] = refsVals vs"
  "refsCells [PlainObject kvs] = refsProps kvs"
  by (auto simp: refsCells_def refsVals_def refsProps_def)

lemma refsVals_simps: "refsVals [] = {}" "refsVals (v # vs) = refsVal v \<union> refsVals vs"
  by (auto simp: refsVals_def)

lemma set_assign_subset: "set (assign m k v) \<subseteq> insert (k, v) (set m)"
  by (induction m) (auto split: if_splits)

lemma refsProps_assign: "refsProps (assign obj k v) \<subseteq> refsVal v \<union> refsProps obj"
  using set_assign_subset [of obj k v] by (fastforce simp: refsProps_def)

lemma refsProps_Nil: "refsProps [] = {}"
  by (simp add: refsProps_def)

lemma convert_plain:
  "convert s n = (v, cells) \<Longrightarrow> list_all isPlain cells"
  "convertItems xs n = (vs, cells) \<Longrightarrow> list_all isPlain cells"
  "convertEntries kvs n obj = (obj', cells) \<Longrightarrow> list_all isPlain cells"
proof (induction s n and xs n and kvs n obj arbitrary: v cells and vs cells and obj' cells
    rule: convert_convertItems_convertEntries.induct)
  case (5 x xs n)
  then obtain v c1 vs' c2 where c: "convert x n = (v, c1)"
    "convertItems xs (n + length c1) = (vs', c2)" "cells = c1 @ c2"
    by (auto split: prod.splits)
  from "5.IH"(1) [OF c(1)] "5.IH"(2) [OF c(1) [symmetric] c(2)] show ?case
    by (simp add: c(3))
next
  case (7 k x kvs n obj)
  then obtain v c1 c2 where c: "convert x n = (v, c1)"
    "convertEntries kvs (n + length c1) (assign obj (keyString k) v) = (obj', c2)"
    "cells = c1 @ c2"
    by (auto split: prod.splits)
  from "7.IH"(1) [OF c(1)] "7.IH"(2) [OF c(1) [symmetric] c(2)] show ?case
    by (simp add: c(3))
qed (auto split: prod.splits)

lemma convert_refs:
  "convert s n = (v, cells) \<Longrightarrow>
     refsVal v \<union> refsCells cells \<subseteq> refsStored s \<union> {n ..< n + length cells}"
  "convertItems xs n = (vs, cells) \<Longrightarrow>
     refsVals vs \<union> refsCells cells \<subseteq> refsItems xs \<union> {n ..< n + length cells}"
  "convertEntries kvs n obj = (obj', cells) \<Longrightarrow>
     refsProps obj' \<union> refsCells cells
       \<subseteq> refsProps obj \<union> refsEntries kvs \<union> {n ..< n + length cells}"
proof (induction s n and xs n and kvs n obj arbitrary: v cells and vs cells and obj' cells
    rule: convert_convertItems_convertEntries.induct)
  case (1 v n)
  then show ?case by (auto simp: refsCells_simps)
next
  case (2 xs n)
  then obtain vs c where c: "convertItems xs n = (vs, c)" "v = HRef (n + length c)"
    "cells = c @ [PlainArray vs]"
    by (auto split: prod.splits)
  from "2.IH" [OF c(1)] show ?case
    unfolding c(2,3) refsCells_simps by auto
next
  case (3 kvs n)
  then obtain obj c where c: "convertEntries kvs n [] = (obj, c)" "v = HRef (n + length c)"
    "cells = c @ [PlainObject obj]"
    by (auto split: prod.splits)
  from "3.IH" [OF c(1)] show ?case
    unfolding c(2,3) refsCells_simps refsProps_Nil by auto
next
  case (4 n)
  then show ?case by (auto simp: refsCells_simps refsVals_simps)
next
  case (5 x xs n)
  then obtain v c1 vs' c2 where c: "convert x n = (v, c1)"
    "convertItems xs (n + length c1) = (vs', c2)" "vs = v # vs'" "cells = c1 @ c2"
    by (auto split: prod.splits)
  from "5.IH"(1) [OF c(1)] "5.IH"(2) [OF c(1) [symmetric] c(2)] show ?case
    unfolding c(3,4) refsCells_simps refsVals_simps by auto
next
  case (6 n obj)
  then show ?case by (auto simp: refsCells_simps)
next
  case (7 k x kvs n obj)
  then obtain v c1 c2 where c: "convert x n = (v, c1)"
    "convertEntries kvs (n + length c1) (assign obj (keyString k) v) = (obj', c2)"
    "cells = c1 @ c2"
    by (auto split: prod.splits)
  have i1: "{n ..< n + length c1} \<subseteq> {n ..< n + length (c1 @ c2)}" by auto
  have i2: "{n + length c1 ..< n + length c1 + length c2} \<subseteq> {n ..< n + length (c1 @ c2)}"
    by auto
  from "7.IH"(1) [OF c(1)] "7.IH"(2) [OF c(1) [symmetric] c(2)]
    refsProps_assign [of obj "keyString k" v] i1 i2
  show ?case
    unfolding c(3) refsCells_simps refsEntries.simps by blast
qed

lemma convert_collection:
  "convert s n = (v, cells) \<Longrightarrow> isCollectionS s \<Longrightarrow>
     cells \<noteq> [] \<and> v = HRef (n + length cells - 1)"
  by (cases s) (auto split: prod.splits)

lemma unwrap_Maybe_h: "unwrap_h (Maybe_h y) = y"
  by (simp add: Maybe_h_def)

lemma bind_h_unwrap:
  "(case bind_h (Maybe_h x) f h of Inl e \<Rightarrow> Inl e | Inr (r, h') \<Rightarrow> Inr (unwrap_h r, h'))
     = (if x = SVal (HPrim PUndefined) then Inr (SVal (HPrim PUndefined), h) else f x h)"
  by (auto simp: Maybe_h_def split: sum.splits)

lemma type_h_eq:
  "type_h reg N h =
     (if getSlot reg N = SVal (HPrim PUndefined) then Inr (SVal (HPrim PUndefined), h)
      else call_toJS_h (getSlot reg N) h)"
  by (simp add: type_h_def bind_h_unwrap)

lemma call_get_h_fieldOf:
  "call_get_h a s h = (case fieldOf a s of Inl e \<Rightarrow> Inl e | Inr x \<Rightarrow> Inr (x, h))"
  by (cases s) (auto simp: fieldOf_def)

lemma getter_chain_eq:
  "(case bind_h (Maybe_h slot) (call_get_h a) h of
        Inl e \<Rightarrow> Inl e
      | Inr (r1, h1) \<Rightarrow>
          (case bind_h r1 f h1 of
             Inl e \<Rightarrow> Inl e
           | Inr (r2, h2) \<Rightarrow> Inr (unwrap_h r2, h2)))
   = (if slot = SVal (HPrim PUndefined) then Inr (SVal (HPrim PUndefined), h)
      else case fieldOf a slot of
             Inl e \<Rightarrow> Inl e
           | Inr x \<Rightarrow> if x = SVal (HPrim PUndefined) then Inr (SVal (HPrim PUndefined), h)
                      else f x h)"
  by (auto simp: Maybe_h_def call_get_h_fieldOf split: sum.splits)

text \<open>An accessor reads a stored value and, unless it is \<open>undefined\<close>, converts it.\<close>

lemma callAccessor_eq:
  "callAccessor A reg N g =
     (case readBy A reg N of
        Inl e \<Rightarrow> Inl e
      | Inr x \<Rightarrow>
          if x = SVal (HPrim PUndefined) then Inr (x, g)
          else (case A of Getter a \<Rightarrow> convertIfCollection x g | _ \<Rightarrow> call_toJS_h x g))"
proof (cases A)
  case TypeOf
  then show ?thesis by (simp add: type_h_eq)
next
  case (Getter a)
  then show ?thesis
    by (simp add: makeGetter_h_def getter_chain_eq split: sum.splits)
next
  case UrlTemplatesOf
  then show ?thesis
    by (simp add: urlTemplatesOf_h_def getter_chain_eq split: sum.splits)
qed

lemma convert_call:
  assumes "isCollectionS x" "convert x (length g) = (v, cells)"
  shows "call_toJS_h x g = Inr (SVal v, g @ cells)"
    and "convertIfCollection x g = Inr (SVal v, g @ cells)"
  using assms by (cases x; simp add: toJS_heap_def)+

text \<open>The representation of a stored value stays one when the heap grows.\<close>

lemma arrayAt_append: "arrayAt n h w = Some vs \<Longrightarrow> arrayAt n (h @ extra) w = Some vs"
  by (auto simp: arrayAt_def nth_append split: hval.splits if_splits)

lemma objectAt_append: "objectAt n h w = Some obj \<Longrightarrow> objectAt n (h @ extra) w = Some obj"
  by (auto simp: objectAt_def nth_append split: hval.splits if_splits)

lemma represents_mono:
  "represents n h x v \<Longrightarrow> represents n (h @ extra) x v"
  "representsItems n h xs vs \<Longrightarrow> representsItems n (h @ extra) xs vs"
  "representsEntries n h kvs obj \<Longrightarrow> representsEntries n (h @ extra) kvs obj"
proof (induction x and xs and kvs arbitrary: v and vs and obj
    rule: refsStored_refsItems_refsEntries.induct)
  case (1 w)
  then show ?case by simp
next
  case (2 xs)
  from "2.prems" obtain vs where a: "arrayAt n h v = Some vs" and r: "representsItems n h xs vs"
    by (auto split: option.splits)
  from arrayAt_append [OF a] "2.IH" [OF r] show ?case by simp
next
  case (3 kvs)
  from "3.prems" obtain obj where a: "objectAt n h v = Some obj"
    and r: "representsEntries n h kvs obj"
    by (auto split: option.splits)
  from objectAt_append [OF a] "3.IH" [OF r] show ?case by simp
next
  case 4
  then show ?case by simp
next
  case (5 x xs)
  from "5.prems" obtain w ws where v: "vs = w # ws" and r: "represents n h x w"
    "representsItems n h xs ws"
    by (auto split: list.splits)
  from "5.IH"(1) [OF r(1)] "5.IH"(2) [OF r(2)] v show ?case by simp
next
  case 6
  then show ?case by simp
next
  case (7 k x kvs)
  from "7.prems" obtain w rest where o: "obj = (keyString k, w) # rest"
    and r: "represents n h x w" "representsEntries n h kvs rest"
    by (auto split: list.splits)
  from "7.IH"(1) [OF r(1)] "7.IH"(2) [OF r(2)] o show ?case by simp
qed

text \<open>
  What \<open>convert\<close> returns represents the stored value, every object and array of it among
  the new cells.
\<close>

lemma convert_represents:
  "convert s n = (v, cells) \<Longrightarrow> length h = n \<Longrightarrow> m \<le> n \<Longrightarrow> wellKeyed s \<Longrightarrow>
     represents m (h @ cells) s v"
  "convertItems xs n = (vs, cells) \<Longrightarrow> length h = n \<Longrightarrow> m \<le> n \<Longrightarrow> wellKeyedItems xs \<Longrightarrow>
     representsItems m (h @ cells) xs vs"
  "convertEntries kvs n obj = (obj', cells) \<Longrightarrow> length h = n \<Longrightarrow> m \<le> n \<Longrightarrow>
     wellKeyedEntries kvs \<Longrightarrow> distinct (map fst obj @ map (\<lambda>e. keyString (fst e)) kvs) \<Longrightarrow>
     \<exists>new. obj' = obj @ new \<and> representsEntries m (h @ cells) kvs new"
proof (induction s n and xs n and kvs n obj arbitrary: v cells h and vs cells h and obj' cells h
    rule: convert_convertItems_convertEntries.induct)
  case (1 w n)
  then show ?case by auto
next
  case (2 xs n)
  from "2.prems"(1) obtain vs c where c: "convertItems xs n = (vs, c)" "v = HRef (n + length c)"
    "cells = c @ [PlainArray vs]"
    by (auto split: prod.splits)
  from "2.prems"(4) have wk: "wellKeyedItems xs" by simp
  from "2.IH" [OF c(1) "2.prems"(2,3) wk]
  have "representsItems m (h @ c) xs vs" .
  then have r: "representsItems m ((h @ c) @ [PlainArray vs]) xs vs"
    by (rule represents_mono(2))
  have "arrayAt m ((h @ c) @ [PlainArray vs]) (HRef (n + length c)) = Some vs"
    using "2.prems"(2,3) by (simp add: arrayAt_def nth_append)
  with r show ?case by (simp add: c(2,3))
next
  case (3 kvs n)
  from "3.prems"(1) obtain obj c where c: "convertEntries kvs n [] = (obj, c)"
    "v = HRef (n + length c)" "cells = c @ [PlainObject obj]"
    by (auto split: prod.splits)
  from "3.prems"(4) have wk: "wellKeyedEntries kvs"
    and di: "distinct (map fst ([] :: (string \<times> hval) list) @ map (\<lambda>e. keyString (fst e)) kvs)"
    by simp_all
  from "3.IH" [OF c(1) "3.prems"(2,3) wk di]
  have "representsEntries m (h @ c) kvs obj" by simp
  then have r: "representsEntries m ((h @ c) @ [PlainObject obj]) kvs obj"
    by (rule represents_mono(3))
  have "objectAt m ((h @ c) @ [PlainObject obj]) (HRef (n + length c)) = Some obj"
    using "3.prems"(2,3) by (simp add: objectAt_def nth_append)
  with r show ?case by (simp add: c(2,3))
next
  case (4 n)
  then show ?case by auto
next
  case (5 x xs n)
  from "5.prems"(1) obtain v c1 vs' c2 where c: "convert x n = (v, c1)"
    "convertItems xs (n + length c1) = (vs', c2)" "vs = v # vs'" "cells = c1 @ c2"
    by (auto split: prod.splits)
  from "5.prems"(4) have wk: "wellKeyed x" "wellKeyedItems xs" by simp_all
  from "5.IH"(1) [OF c(1) "5.prems"(2,3) wk(1)]
  have "represents m (h @ c1) x v" .
  then have r1: "represents m ((h @ c1) @ c2) x v" by (rule represents_mono(1))
  have l: "length (h @ c1) = n + length c1" using "5.prems"(2) by simp
  have le: "m \<le> n + length c1" using "5.prems"(3) by simp
  from "5.IH"(2) [OF c(1) [symmetric] c(2) l le wk(2)]
  have r2: "representsItems m ((h @ c1) @ c2) xs vs'" .
  from r1 r2 show ?case by (simp add: c(3,4))
next
  case (6 n obj)
  then show ?case by auto
next
  case (7 k x kvs n obj)
  from "7.prems"(1) obtain v c1 c2 where c: "convert x n = (v, c1)"
    "convertEntries kvs (n + length c1) (assign obj (keyString k) v) = (obj', c2)"
    "cells = c1 @ c2"
    by (auto split: prod.splits)
  from "7.prems"(4) have wk: "wellKeyed x" "wellKeyedEntries kvs" by simp_all
  from "7.prems"(5) have fresh: "keyString k \<notin> fst ` set obj"
    and di: "distinct (map fst (obj @ [(keyString k, v)]) @ map (\<lambda>e. keyString (fst e)) kvs)"
    by auto
  from fresh have as: "assign obj (keyString k) v = obj @ [(keyString k, v)]"
    by (rule assign_fresh)
  from "7.IH"(1) [OF c(1) "7.prems"(2,3) wk(1)]
  have "represents m (h @ c1) x v" .
  then have r1: "represents m ((h @ c1) @ c2) x v" by (rule represents_mono(1))
  have l: "length (h @ c1) = n + length c1" using "7.prems"(2) by simp
  have le: "m \<le> n + length c1" using "7.prems"(3) by simp
  from "7.IH"(2) [OF c(1) [symmetric] c(2) l le wk(2)] di as
  obtain new where n: "obj' = (obj @ [(keyString k, v)]) @ new"
    "representsEntries m ((h @ c1) @ c2) kvs new"
    by auto
  from n(1) have "obj' = obj @ ((keyString k, v) # new)" by simp
  moreover from r1 n(2) have "representsEntries m (h @ cells) ((k, x) # kvs) ((keyString k, v) # new)"
    by (simp add: c(3))
  ultimately show ?case by blast
qed

text \<open>Writing a property of an object through a reference, and reading it back.\<close>

lemma readProp_writeProp:
  "a < length g \<Longrightarrow> isObjectCell (g ! a) \<Longrightarrow>
     readProp (writeProp g (HRef a) k w) (HRef a) k = w"
  by (cases "g ! a") (auto simp: readProp_def writeProp_def map_of_assign)

text \<open>
  Every call of an accessor that returns: what it returns on any heap, from the stored
  value that it reads.
\<close>

lemma accessor_reads:
  "callAccessor A reg N h = Inr (r, h') \<Longrightarrow> \<exists>x. readBy A reg N = Inr x"
  by (cases "readBy A reg N") (auto simp: callAccessor_eq)

lemma accessor_call:
  assumes "callAccessor A reg N h = Inr (r, h')" and x: "readBy A reg N = Inr x"
  shows "\<exists>v cells. callAccessor A reg N g = Inr (SVal v, g @ cells)
           \<and> list_all isPlain cells
           \<and> (isCollectionS x \<longrightarrow> cells \<noteq> [] \<and> v = HRef (length g + length cells - 1))
           \<and> (\<not> isCollectionS x \<longrightarrow> cells = [] \<and> x = SVal v)
           \<and> (wellKeyed x \<longrightarrow> represents (length g) (g @ cells) x v)
           \<and> refsVal v \<union> refsCells cells \<subseteq> refsStored x \<union> {length g ..< length g + length cells}"
proof -
  have ok: "x = SVal (HPrim PUndefined) \<or> isCollectionS x \<or> (\<exists>a. A = Getter a)"
  proof (rule ccontr)
    assume n: "\<not> ?thesis"
    then obtain w where "x = SVal w" by (cases x) auto
    with n assms show False
      by (cases A) (auto simp: callAccessor_eq)
  qed
  show ?thesis
  proof (cases "isCollectionS x")
    case True
    obtain v cells where c: "convert x (length g) = (v, cells)"
      by (cases "convert x (length g)")
    from True have nu: "x \<noteq> SVal (HPrim PUndefined)" by auto
    have e: "callAccessor A reg N g = Inr (SVal v, g @ cells)"
      using x nu convert_call [OF True c] by (cases A) (simp_all add: callAccessor_eq)
    have p: "list_all isPlain cells" by (rule convert_plain(1) [OF c])
    have f: "isCollectionS x \<longrightarrow> cells \<noteq> [] \<and> v = HRef (length g + length cells - 1)"
      using convert_collection [OF c True] by simp
    have nf: "\<not> isCollectionS x \<longrightarrow> cells = [] \<and> x = SVal v"
      using True by simp
    have r: "wellKeyed x \<longrightarrow> represents (length g) (g @ cells) x v"
      using convert_represents(1) [OF c refl order_refl] by blast
    have s: "refsVal v \<union> refsCells cells \<subseteq> refsStored x \<union> {length g ..< length g + length cells}"
      by (rule convert_refs(1) [OF c])
    show ?thesis
      by (rule exI [of _ v], rule exI [of _ cells]) (rule conjI e p f nf r s)+
  next
    case False
    then obtain v where v: "x = SVal v" by (cases x) auto
    have e: "callAccessor A reg N g = Inr (SVal v, g @ [])"
      using x v ok by (cases A) (auto simp: callAccessor_eq)
    have p: "list_all isPlain []" by simp
    have f: "isCollectionS x \<longrightarrow> [] \<noteq> ([] :: cell list) \<and> v = HRef (length g + length ([] :: cell list) - 1)"
      using False by simp
    have nf: "\<not> isCollectionS x \<longrightarrow> [] = ([] :: cell list) \<and> x = SVal v"
      using v by simp
    have r: "wellKeyed x \<longrightarrow> represents (length g) (g @ []) x v"
      by (simp add: v)
    have s: "refsVal v \<union> refsCells [] \<subseteq> refsStored x \<union> {length g ..< length g + length ([] :: cell list)}"
      by (simp add: v refsCells_simps)
    show ?thesis
      by (rule exI [of _ v], rule exI [of _ "[]"]) (rule conjI e p f nf r s)+
  qed
qed

section \<open>The claims\<close>

text \<open>
  C1. A type \<open>T\<close> that the sort returned and that declares a parent, in a registry that
  the constructor returned: \<open>T\<close> is registered, and the getter \<open>labelMappers(T)\<close>
  returns the conversion of the label mappers that \<open>T\<close>'s own description declares:
  exactly the declaration when it is a plain value, and \<open>undefined\<close> when \<open>T\<close>
  declares none, whatever the parent's description holds.
\<close>

theorem labelMappers_not_inherited:
  assumes "typeRegistrationOrder topSort tds = Inr order" and "T \<in> set order"
    and "ResourceTypeRegistry topSort tds descriptionDefaults = Inr reg"
    and "map_of tds T = Some desc"
    and "truthy (ownProp desc ''parentType'')"
  shows "T \<in> set (typeNames reg) \<and> hasType reg T
       \<and> labelMappers reg T = Inr (toJS (fromJS (ownProp desc ''labelMappers'')))
       \<and> (plain (ownProp desc ''labelMappers'')
            \<longrightarrow> labelMappers reg T = Inr (ownProp desc ''labelMappers''))
       \<and> (''labelMappers'' \<notin> fst ` set desc \<longrightarrow> labelMappers reg T = Inr JUndefined)"
proof -
  from constructor_registered [OF assms(3,1)] obtain dd where I: "registered tds dd reg"
    and names: "fst ` set reg = set order"
    by blast
  from names assms(2) have tin: "T \<in> fst ` set reg" by simp
  from registered_entry [OF I tin assms(4)] assms(5)
  obtain merged where s: "map_of reg T =
      Some (ImmMap (Map_set merged (KStr ''labelMappers'') (fromJS (ownProp desc ''labelMappers''))))"
    by auto
  have g: "labelMappers reg T = Inr (toJS (fromJS (ownProp desc ''labelMappers'')))"
    using s by (simp add: labelMappers_def makeGetter_own Map_get_Map_set)
  have n: "ownProp desc ''labelMappers'' = JUndefined" if "''labelMappers'' \<notin> fst ` set desc"
    using that by (simp add: ownProp_def map_of_eq_None_iff [symmetric])
  from tin have "T \<in> set (typeNames reg)" by (simp add: typeNames_def)
  with hasType_registered [OF tin] g n show ?thesis
    by (auto simp: toJS_fromJS_all(1))
qed

theorem labelMappers_not_inherited_witness:
  "(case ResourceTypeRegistry pseudoTopSort labelledTypes (JObject []) of
      Inl e \<Rightarrow> Inl e | Inr reg \<Rightarrow> labelMappers reg ''schools'')
     = Inr (JObject [(''nearby'', JFunction 2)])
   \<and> (case ResourceTypeRegistry pseudoTopSort labelledTypes (JObject []) of
        Inl e \<Rightarrow> Inl e | Inr reg \<Rightarrow> labelMappers reg ''companies'')
     = Inr JUndefined
   \<and> (case ResourceTypeRegistry pseudoTopSort labelledTypes (JObject []) of
        Inl e \<Rightarrow> Inl e | Inr reg \<Rightarrow> labelMappers reg ''organizations'')
     = Inr (JObject [(''mine'', JFunction 1)])"
proof -
  let ?order = "[''organizations'', ''schools'', ''companies'']"
  let ?schools = "[(''parentType'', JString ''organizations''),
                   (''labelMappers'', JObject [(''nearby'', JFunction 2)])]"
  let ?companies = "[(''parentType'', JString ''organizations'')]"
  have o: "typeRegistrationOrder pseudoTopSort labelledTypes = Inr ?order"
    by code_simp
  have "case ResourceTypeRegistry pseudoTopSort labelledTypes (JObject []) of
          Inl e \<Rightarrow> False | Inr reg \<Rightarrow> True"
    by code_simp
  then obtain reg where b: "ResourceTypeRegistry pseudoTopSort labelledTypes (JObject []) = Inr reg"
    by (cases "ResourceTypeRegistry pseudoTopSort labelledTypes (JObject [])") auto
  have d1: "map_of labelledTypes ''schools'' = Some ?schools"
    by (simp add: labelledTypes_def)
  have d2: "map_of labelledTypes ''companies'' = Some ?companies"
    by (simp add: labelledTypes_def)
  have p1: "truthy (ownProp ?schools ''parentType'')" by (simp add: ownProp_def)
  have p2: "truthy (ownProp ?companies ''parentType'')" by (simp add: ownProp_def)
  have t1: "''schools'' \<in> set ?order" by simp
  have t2: "''companies'' \<in> set ?order" by simp
  have 1: "labelMappers reg ''schools'' = Inr (JObject [(''nearby'', JFunction 2)])"
    using labelMappers_not_inherited [OF o t1 b d1 p1]
    by (simp add: ownProp_def isPlainObj_def)
  have 2: "labelMappers reg ''companies'' = Inr JUndefined"
    using labelMappers_not_inherited [OF o t2 b d2 p2]
    by (simp add: ownProp_def)
  have 3: "(case ResourceTypeRegistry pseudoTopSort labelledTypes (JObject []) of
        Inl e \<Rightarrow> Inl e | Inr reg \<Rightarrow> labelMappers reg ''organizations'')
     = Inr (JObject [(''mine'', JFunction 1)])"
    by code_simp
  from 1 2 3 show ?thesis by (simp add: b)
qed

text \<open>
  C9. The claim as stated fails for an own field that is a list: with the supplied
  defaults declaring the default includes \<open>account\<close> and \<open>roles\<close>, the root type
  \<open>people\<close>, which declares the one default include \<open>address\<close>, is registered with
  \<open>address\<close> and \<open>roles\<close>: its own field does not win.
\<close>

theorem own_list_is_merged_into_the_defaults:
  "(case ResourceTypeRegistry pseudoTopSort rootTypes suppliedDefaults of
      Inl e \<Rightarrow> Inl e | Inr reg \<Rightarrow> defaultIncludes reg ''people'')
     = Inr (JArray [JString ''address'', JString ''roles''])
   \<and> map_of rootTypes ''people'' = Some peopleDescription
   \<and> ownProp peopleDescription ''parentType'' = JUndefined
   \<and> ownProp peopleDescription ''defaultIncludes'' = JArray [JString ''address'']"
  by code_simp

text \<open>
  C9, amended. A type \<open>T\<close> that the sort returned and that declares no parent, in a
  registry that the constructor returned: \<open>T\<close> is registered, its stored description is
  the effective defaults (the global defaults merged with the supplied defaults) merged
  with its own converted description, and \<open>type(T)\<close> returns the conversion of that. An
  empty description gives exactly the effective defaults, and a field that the
  description does not declare is the field of the effective defaults. A field that the
  description declares is read back unchanged when its value is not an array or an
  object, and is the converted value when the effective defaults lack the field;
  otherwise it is \<open>deepMerger\<close> of the defaults' value and the converted value: the
  merge by index of the two lists, the merge key by key of the two maps.
\<close>

theorem root_type_merged_with_defaults:
  assumes "typeRegistrationOrder topSort tds = Inr order" and "T \<in> set order"
    and "ResourceTypeRegistry topSort tds descriptionDefaults = Inr reg"
    and "map_of tds T = Some desc"
    and "\<not> truthy (ownProp desc ''parentType'')"
  shows "\<exists>defaults merged.
        Map_mergeDeep globalResourceDefaults descriptionDefaults = Inr defaults
      \<and> Map_mergeDeep defaults (fromJS (JObject desc)) = Inr merged
      \<and> T \<in> set (typeNames reg) \<and> getProp reg T = ImmMap merged
      \<and> type reg T = Inr (toJS (ImmMap merged))
      \<and> (desc = [] \<longrightarrow> merged = defaults)
      \<and> (\<forall>k. k \<notin> fst ` set desc \<longrightarrow>
            makeGetter k reg T = Inr (toJS (Map_get defaults (KStr k))))
      \<and> (distinct (map fst desc) \<longrightarrow>
           (\<forall>k v. map_of desc k = Some v \<longrightarrow>
              (\<not> isCollection (fromJS v) \<longrightarrow> makeGetter k reg T = Inr v)
            \<and> (map_of defaults (KStr k) = None \<longrightarrow> makeGetter k reg T = Inr (toJS (fromJS v)))
            \<and> (\<forall>d. map_of defaults (KStr k) = Some d \<longrightarrow>
                 (\<exists>z. deepMerger d (fromJS v) = Inr z \<and> makeGetter k reg T = Inr (toJS z)))
            \<and> (\<forall>xs ys. map_of defaults (KStr k) = Some (ImmList xs) \<and> fromJS v = ImmList ys \<longrightarrow>
                 (\<exists>zs. mergeIntoList xs ys = Inr zs
                    \<and> makeGetter k reg T = Inr (toJS (ImmList zs))))
            \<and> (\<forall>a b. map_of defaults (KStr k) = Some (ImmMap a) \<and> fromJS v = ImmMap b \<longrightarrow>
                 (\<exists>m. mergeIntoMap a b = Inr m
                    \<and> makeGetter k reg T = Inr (toJS (ImmMap m))))))"
proof -
  from constructor_registered [OF assms(3,1)] obtain dd
    where dd: "Map_mergeDeep globalResourceDefaults descriptionDefaults = Inr dd"
      and I: "registered tds dd reg" and names: "fst ` set reg = set order"
    by blast
  from names assms(2) have tin: "T \<in> fst ` set reg" by simp
  from registered_entry [OF I tin assms(4)] assms(5)
  obtain w where m: "mergeIntoMap dd (fromJS_props desc) = Inr w"
    and s: "map_of reg T = Some (ImmMap w)"
    by auto
  have md: "Map_mergeDeep dd (fromJS (JObject desc)) = Inr w"
    using m by (simp only: Map_mergeDeep_fromJS(1))
  have tn: "T \<in> set (typeNames reg)" using tin by (simp add: typeNames_def)
  have g: "getProp reg T = ImmMap w"
    using s by (simp add: getProp_def)
  have t: "type reg T = Inr (toJS (ImmMap w))"
    using s by (rule type_own)
  have e: "desc = [] \<longrightarrow> w = dd"
    using m by auto
  have gk: "makeGetter k reg T = Inr (toJS (Map_get w (KStr k)))" for k
    using s by (rule makeGetter_own)
  have u: "makeGetter k reg T = Inr (toJS (Map_get dd (KStr k)))" if "k \<notin> fst ` set desc" for k
  proof -
    from that have "KStr k \<notin> fst ` set (fromJS_props desc)" by (rule KStr_notin_fromJS_props)
    from map_of_mergeIntoMap_other [OF m this] show ?thesis
      by (simp add: gk Map_get_def)
  qed
  have o: "(\<not> isCollection (fromJS v) \<longrightarrow> makeGetter k reg T = Inr v)
            \<and> (map_of dd (KStr k) = None \<longrightarrow> makeGetter k reg T = Inr (toJS (fromJS v)))
            \<and> (\<forall>d. map_of dd (KStr k) = Some d \<longrightarrow>
                 (\<exists>z. deepMerger d (fromJS v) = Inr z \<and> makeGetter k reg T = Inr (toJS z)))
            \<and> (\<forall>xs ys. map_of dd (KStr k) = Some (ImmList xs) \<and> fromJS v = ImmList ys \<longrightarrow>
                 (\<exists>zs. mergeIntoList xs ys = Inr zs
                    \<and> makeGetter k reg T = Inr (toJS (ImmList zs))))
            \<and> (\<forall>a b. map_of dd (KStr k) = Some (ImmMap a) \<and> fromJS v = ImmMap b \<longrightarrow>
                 (\<exists>m. mergeIntoMap a b = Inr m
                    \<and> makeGetter k reg T = Inr (toJS (ImmMap m))))"
    if di: "distinct (map fst desc)" and kv: "map_of desc k = Some v" for k v
  proof -
    have dk: "distinct (map fst (fromJS_props desc))"
      using di by (rule distinct_fromJS_props)
    have mk: "map_of (fromJS_props desc) (KStr k) = Some (fromJS v)"
      using kv by (simp add: map_of_fromJS_props)
    note mm = map_of_mergeIntoMap [OF dk m mk, THEN conjunct1]
    have 1: "makeGetter k reg T = Inr v" if nc: "\<not> isCollection (fromJS v)"
    proof -
      have "(case map_of dd (KStr k) of None \<Rightarrow> Inr (fromJS v) | Some x \<Rightarrow> deepMerger x (fromJS v))
          = Inr (fromJS v)"
        using nc by (simp add: deepMerger_replaces split: option.splits)
      with mm have "Map_get w (KStr k) = fromJS v" by simp
      moreover have "toJS (fromJS v) = v"
        using nc fromJS_not_collection [OF nc] by (simp add: toJS_not_collection)
      ultimately show ?thesis by (simp add: gk)
    qed
    have 2: "makeGetter k reg T = Inr (toJS (fromJS v))" if "map_of dd (KStr k) = None"
      using mm that by (simp add: gk)
    have 3: "\<exists>z. deepMerger d (fromJS v) = Inr z \<and> makeGetter k reg T = Inr (toJS z)"
      if "map_of dd (KStr k) = Some d" for d
      using mm that by (simp add: gk)
    have 4: "\<exists>zs. mergeIntoList xs ys = Inr zs \<and> makeGetter k reg T = Inr (toJS (ImmList zs))"
      if "map_of dd (KStr k) = Some (ImmList xs) \<and> fromJS v = ImmList ys" for xs ys
    proof -
      from 3 [of "ImmList xs"] that obtain z where z: "deepMerger (ImmList xs) (ImmList ys) = Inr z"
        "makeGetter k reg T = Inr (toJS z)" by auto
      from z(1) have "\<exists>zs. mergeIntoList xs ys = Inr zs \<and> z = ImmList zs"
        by (simp only: deepMerger_Lists)
      with z(2) show ?thesis by blast
    qed
    have 5: "\<exists>m. mergeIntoMap a b = Inr m \<and> makeGetter k reg T = Inr (toJS (ImmMap m))"
      if "map_of dd (KStr k) = Some (ImmMap a) \<and> fromJS v = ImmMap b" for a b
    proof -
      from 3 [of "ImmMap a"] that obtain z where z: "deepMerger (ImmMap a) (ImmMap b) = Inr z"
        "makeGetter k reg T = Inr (toJS z)" by auto
      from z(1) have "\<exists>m. mergeIntoMap a b = Inr m \<and> z = ImmMap m"
        by (simp only: deepMerger_Maps)
      with z(2) show ?thesis by blast
    qed
    from 1 2 3 4 5 show ?thesis by blast
  qed
  have u': "\<forall>k. k \<notin> fst ` set desc \<longrightarrow>
            makeGetter k reg T = Inr (toJS (Map_get dd (KStr k)))"
    using u by blast
  have o': "distinct (map fst desc) \<longrightarrow>
           (\<forall>k v. map_of desc k = Some v \<longrightarrow>
              (\<not> isCollection (fromJS v) \<longrightarrow> makeGetter k reg T = Inr v)
            \<and> (map_of dd (KStr k) = None \<longrightarrow> makeGetter k reg T = Inr (toJS (fromJS v)))
            \<and> (\<forall>d. map_of dd (KStr k) = Some d \<longrightarrow>
                 (\<exists>z. deepMerger d (fromJS v) = Inr z \<and> makeGetter k reg T = Inr (toJS z)))
            \<and> (\<forall>xs ys. map_of dd (KStr k) = Some (ImmList xs) \<and> fromJS v = ImmList ys \<longrightarrow>
                 (\<exists>zs. mergeIntoList xs ys = Inr zs
                    \<and> makeGetter k reg T = Inr (toJS (ImmList zs))))
            \<and> (\<forall>a b. map_of dd (KStr k) = Some (ImmMap a) \<and> fromJS v = ImmMap b \<longrightarrow>
                 (\<exists>m. mergeIntoMap a b = Inr m
                    \<and> makeGetter k reg T = Inr (toJS (ImmMap m)))))"
    by (intro impI allI) (rule o)
  show ?thesis
    by (rule exI [of _ dd], rule exI [of _ w]) (rule conjI dd md tn g t e u' o')+
qed

theorem root_type_merged_with_defaults_witness:
  "(case ResourceTypeRegistry pseudoTopSort rootTypes suppliedDefaults of
      Inl e \<Rightarrow> Inl e | Inr reg \<Rightarrow> dbAdapter reg ''people'') = Inr (JInstance 7)
   \<and> (case ResourceTypeRegistry pseudoTopSort rootTypes suppliedDefaults of
        Inl e \<Rightarrow> Inl e | Inr reg \<Rightarrow> info reg ''people'')
     = Inr (JObject [(''description'', JString ''A resource.''), (''example'', JString ''Jane'')])
   \<and> (case ResourceTypeRegistry pseudoTopSort rootTypes suppliedDefaults of
        Inl e \<Rightarrow> Inl e | Inr reg \<Rightarrow> type reg ''tags'')
     = Inr (JObject
         [(''behaviors'', JObject [(''dasherizeOutput'', JObject [(''enabled'', JBool True)])]),
          (''info'', JObject [(''description'', JString ''A resource.'')]),
          (''defaultIncludes'', JArray [JString ''account'', JString ''roles''])])"
proof -
  let ?R = "ResourceTypeRegistry pseudoTopSort rootTypes suppliedDefaults"
  let ?dd = "[(KStr ''behaviors'',
                 ImmMap [(KStr ''dasherizeOutput'', ImmMap [(KStr ''enabled'', JBool True)])]),
              (KStr ''info'', ImmMap [(KStr ''description'', JString ''A resource.'')]),
              (KStr ''defaultIncludes'', ImmList [JString ''account'', JString ''roles''])]"
  have o: "typeRegistrationOrder pseudoTopSort rootTypes = Inr [''people'', ''tags'']"
    by code_simp
  have "case ?R of Inl e \<Rightarrow> False | Inr reg \<Rightarrow> True"
    by code_simp
  then obtain reg where b: "?R = Inr reg" by (cases ?R) auto
  have dflt: "Map_mergeDeep globalResourceDefaults suppliedDefaults = Inr ?dd"
    by code_simp
  have d1: "map_of rootTypes ''people'' = Some peopleDescription"
    by (simp add: rootTypes_def)
  have d2: "map_of rootTypes ''tags'' = Some []"
    by (simp add: rootTypes_def)
  have p1: "\<not> truthy (ownProp peopleDescription ''parentType'')"
    by (simp add: ownProp_def peopleDescription_def)
  have p2: "\<not> truthy (ownProp [] ''parentType'')"
    by (simp add: ownProp_def)
  have di: "distinct (map fst peopleDescription)" by (simp add: peopleDescription_def)
  have t1: "''people'' \<in> set [''people'', ''tags'']" by simp
  have t2: "''tags'' \<in> set [''people'', ''tags'']" by simp
  from root_type_merged_with_defaults [OF o t1 b d1 p1]
  obtain defaults where df: "Map_mergeDeep globalResourceDefaults suppliedDefaults = Inr defaults"
    and own: "distinct (map fst peopleDescription) \<longrightarrow>
           (\<forall>k v. map_of peopleDescription k = Some v \<longrightarrow>
              (\<not> isCollection (fromJS v) \<longrightarrow> makeGetter k reg ''people'' = Inr v)
            \<and> (map_of defaults (KStr k) = None
                 \<longrightarrow> makeGetter k reg ''people'' = Inr (toJS (fromJS v)))
            \<and> (\<forall>d. map_of defaults (KStr k) = Some d \<longrightarrow>
                 (\<exists>z. deepMerger d (fromJS v) = Inr z
                    \<and> makeGetter k reg ''people'' = Inr (toJS z)))
            \<and> (\<forall>xs ys. map_of defaults (KStr k) = Some (ImmList xs) \<and> fromJS v = ImmList ys \<longrightarrow>
                 (\<exists>zs. mergeIntoList xs ys = Inr zs
                    \<and> makeGetter k reg ''people'' = Inr (toJS (ImmList zs))))
            \<and> (\<forall>a b. map_of defaults (KStr k) = Some (ImmMap a) \<and> fromJS v = ImmMap b \<longrightarrow>
                 (\<exists>m. mergeIntoMap a b = Inr m
                    \<and> makeGetter k reg ''people'' = Inr (toJS (ImmMap m)))))"
    by blast
  from df dflt have de: "defaults = ?dd" by simp
  have a1: "map_of peopleDescription ''dbAdapter'' = Some (JInstance 7)"
    by (simp add: peopleDescription_def)
  from own di a1
  have "\<not> isCollection (fromJS (JInstance 7))
      \<longrightarrow> makeGetter ''dbAdapter'' reg ''people'' = Inr (JInstance 7)"
    by blast
  then have 1: "dbAdapter reg ''people'' = Inr (JInstance 7)"
    by (simp add: dbAdapter_def isCollection_def)
  have a2: "map_of peopleDescription ''info'' = Some (JObject [(''example'', JString ''Jane'')])"
    by (simp add: peopleDescription_def)
  from own di a2
  have "\<forall>a b. map_of defaults (KStr ''info'') = Some (ImmMap a)
            \<and> fromJS (JObject [(''example'', JString ''Jane'')]) = ImmMap b \<longrightarrow>
          (\<exists>m. mergeIntoMap a b = Inr m
             \<and> makeGetter ''info'' reg ''people'' = Inr (toJS (ImmMap m)))"
    by blast
  then have "\<exists>m. mergeIntoMap [(KStr ''description'', JString ''A resource.'')]
               [(KStr ''example'', JString ''Jane'')] = Inr m
          \<and> makeGetter ''info'' reg ''people'' = Inr (toJS (ImmMap m))"
    by (simp add: de isPlainObj_def)
  then have 2: "info reg ''people''
     = Inr (JObject [(''description'', JString ''A resource.''), (''example'', JString ''Jane'')])"
    by (auto simp: info_def)
  from root_type_merged_with_defaults [OF o t2 b d2 p2]
  obtain defaults' merged' where df': "Map_mergeDeep globalResourceDefaults suppliedDefaults = Inr defaults'"
    and ty: "type reg ''tags'' = Inr (toJS (ImmMap merged'))"
    and em: "[] = ([] :: (string \<times> jsval) list) \<longrightarrow> merged' = defaults'"
    by blast
  from df' dflt em have "merged' = ?dd" by simp
  with ty have 3: "type reg ''tags'' = Inr (toJS (ImmMap ?dd))"
    by simp
  from 1 2 3 show ?thesis by (simp add: b)
qed

text \<open>
  C2. The claim as stated fails for an own value that is a list. The info of
  \<open>organizations\<close> holds two examples and the info of its child \<open>schools\<close> declares
  one: \<open>info("schools")\<close> holds the child's example and the parent's second one, so the
  child's own value does not win. The same holds of the default includes of the types
  \<open>schools\<close> and \<open>organizations\<close> of the first example.
\<close>

theorem own_list_is_merged_into_the_parents:
  "(case ResourceTypeRegistry pseudoTopSort listedInfoTypes (JObject []) of
      Inl e \<Rightarrow> Inl e | Inr reg \<Rightarrow> info reg ''schools'')
     = Inr (JObject [(''description'', JString ''An organization.''),
                     (''examples'', JArray [JString ''Primary School'', JString ''City Council''])])
   \<and> (case ResourceTypeRegistry pseudoTopSort listedInfoTypes (JObject []) of
        Inl e \<Rightarrow> Inl e | Inr reg \<Rightarrow> info reg ''organizations'')
     = Inr (JObject [(''description'', JString ''An organization.''),
                     (''examples'', JArray [JString ''State Government'', JString ''City Council''])])
   \<and> map_of listedInfoTypes ''schools''
     = Some [(''parentType'', JString ''organizations''),
             (''info'', JObject [(''examples'', JArray [JString ''Primary School''])])]
   \<and> (case ResourceTypeRegistry pseudoTopSort exampleTypes (JObject []) of
        Inl e \<Rightarrow> Inl e | Inr reg \<Rightarrow> defaultIncludes reg ''schools'')
     = Inr (JArray [JString ''principal'', JString ''departments''])
   \<and> map_of exampleTypes ''schools'' = Some schoolsDescription
   \<and> ownProp schoolsDescription ''defaultIncludes'' = JArray [JString ''principal'']"
  by code_simp

text \<open>
  C2, amended. A type \<open>T\<close> that the sort returned and that declares a parent \<open>P\<close>, in a
  registry that the constructor returned: \<open>T\<close> and \<open>P\<close> are registered, and the stored
  description of \<open>T\<close> is the stored description of \<open>P\<close> merged with \<open>T\<close>'s own
  converted description, with \<open>labelMappers\<close> then set to \<open>T\<close>'s own declaration. If
  \<open>T\<close> declares no \<open>info\<close>, \<open>info(T)\<close> is \<open>info(P)\<close>. If \<open>T\<close> declares a plain
  \<open>info\<close> object and the stored \<open>info\<close> of \<open>P\<close> is a Map with string keys, \<open>info(T)\<close>
  and \<open>info(P)\<close> agree on every field that \<open>T\<close>'s \<open>info\<close> does not declare; a field
  that it declares has \<open>T\<close>'s value when that value is not an array or an object, and
  \<open>T\<close>'s converted value when \<open>P\<close>'s info lacks the field; otherwise it is
  \<open>deepMerger\<close> of \<open>P\<close>'s value and \<open>T\<close>'s converted value: the merge by index of
  the two lists, the merge key by key of the two maps.
\<close>

theorem child_type_merged_with_parent:
  assumes "typeRegistrationOrder topSort tds = Inr order" and "T \<in> set order"
    and "ResourceTypeRegistry topSort tds descriptionDefaults = Inr reg"
    and "map_of tds T = Some desc"
    and "truthy (ownProp desc ''parentType'')"
  shows "\<exists>P parent merged. ownProp desc ''parentType'' = JString P
      \<and> T \<in> set (typeNames reg) \<and> P \<in> set (typeNames reg)
      \<and> getProp reg P = ImmMap parent
      \<and> Map_mergeDeep parent (fromJS (JObject desc)) = Inr merged
      \<and> getProp reg T =
          ImmMap (Map_set merged (KStr ''labelMappers'') (fromJS (ownProp desc ''labelMappers'')))
      \<and> (''info'' \<notin> fst ` set desc \<longrightarrow> info reg T = info reg P)
      \<and> (\<forall>pi ti. Map_get parent (KStr ''info'') = ImmMap pi \<and> stringKeyed pi
             \<and> distinct (map fst desc) \<and> ownProp desc ''info'' = JObject ti
             \<and> isPlainObj ti \<and> distinct (map fst ti)
           \<longrightarrow> (\<exists>pinfo tinfo. info reg P = Inr (JObject pinfo) \<and> info reg T = Inr (JObject tinfo)
                 \<and> (\<forall>s. s \<notin> fst ` set ti \<longrightarrow> map_of tinfo s = map_of pinfo s)
                 \<and> (\<forall>s v. map_of ti s = Some v \<longrightarrow>
                      (\<not> isCollection (fromJS v) \<longrightarrow> map_of tinfo s = Some v)
                    \<and> (map_of pi (KStr s) = None \<longrightarrow> map_of tinfo s = Some (toJS (fromJS v)))
                    \<and> (\<forall>x. map_of pi (KStr s) = Some x \<longrightarrow>
                         (\<exists>z. deepMerger x (fromJS v) = Inr z \<and> map_of tinfo s = Some (toJS z)))
                    \<and> (\<forall>xs ys. map_of pi (KStr s) = Some (ImmList xs) \<and> fromJS v = ImmList ys \<longrightarrow>
                         (\<exists>zs. mergeIntoList xs ys = Inr zs
                            \<and> map_of tinfo s = Some (toJS (ImmList zs))))
                    \<and> (\<forall>a b. map_of pi (KStr s) = Some (ImmMap a) \<and> fromJS v = ImmMap b \<longrightarrow>
                         (\<exists>m. mergeIntoMap a b = Inr m
                            \<and> map_of tinfo s = Some (toJS (ImmMap m)))))))"
proof -
  from constructor_registered [OF assms(3,1)] obtain dd where I: "registered tds dd reg"
    and names: "fst ` set reg = set order"
    by blast
  from names assms(2) have tin: "T \<in> fst ` set reg" by simp
  from registered_entry [OF I tin assms(4)] assms(5)
  obtain P parent merged where P: "ownProp desc ''parentType'' = JString P"
    and par: "map_of reg P = Some (ImmMap parent)"
    and pl: "isPlainObj desc"
    and mg: "mergeIntoMap parent (fromJS_props desc) = Inr merged"
    and child: "map_of reg T =
          Some (ImmMap (Map_set merged (KStr ''labelMappers'')
                         (fromJS (ownProp desc ''labelMappers''))))"
    by auto
  let ?raw = "fromJS_props desc"
  let ?stored = "Map_set merged (KStr ''labelMappers'') (fromJS (ownProp desc ''labelMappers''))"
  have tn: "T \<in> set (typeNames reg)" using tin by (simp add: typeNames_def)
  have pn: "P \<in> set (typeNames reg)"
    using par by (auto simp: typeNames_def dest!: map_of_SomeD intro: rev_image_eqI)
  have md: "Map_mergeDeep parent (fromJS (JObject desc)) = Inr merged"
    using mg by (simp only: Map_mergeDeep_fromJS(1))
  have gi: "Map_get ?stored (KStr ''info'') = Map_get merged (KStr ''info'')"
    by (simp add: Map_get_def Map_set_def map_of_assign)
  have iT: "info reg T = Inr (toJS (Map_get merged (KStr ''info'')))"
    using child gi by (simp add: info_def makeGetter_own)
  have iP: "info reg P = Inr (toJS (Map_get parent (KStr ''info'')))"
    using par by (simp add: info_def makeGetter_own)
  have a: "''info'' \<notin> fst ` set desc \<longrightarrow> info reg T = info reg P"
  proof
    assume "''info'' \<notin> fst ` set desc"
    then have "KStr ''info'' \<notin> fst ` set ?raw"
      by (rule KStr_notin_fromJS_props)
    then have "Map_get merged (KStr ''info'') = Map_get parent (KStr ''info'')"
      by (simp add: Map_get_def map_of_mergeIntoMap_other [OF mg])
    with iT iP show "info reg T = info reg P" by simp
  qed
  have b: "\<exists>pinfo tinfo. info reg P = Inr (JObject pinfo) \<and> info reg T = Inr (JObject tinfo)
                 \<and> (\<forall>s. s \<notin> fst ` set ti \<longrightarrow> map_of tinfo s = map_of pinfo s)
                 \<and> (\<forall>s v. map_of ti s = Some v \<longrightarrow>
                      (\<not> isCollection (fromJS v) \<longrightarrow> map_of tinfo s = Some v)
                    \<and> (map_of pi (KStr s) = None \<longrightarrow> map_of tinfo s = Some (toJS (fromJS v)))
                    \<and> (\<forall>x. map_of pi (KStr s) = Some x \<longrightarrow>
                         (\<exists>z. deepMerger x (fromJS v) = Inr z \<and> map_of tinfo s = Some (toJS z)))
                    \<and> (\<forall>xs ys. map_of pi (KStr s) = Some (ImmList xs) \<and> fromJS v = ImmList ys \<longrightarrow>
                         (\<exists>zs. mergeIntoList xs ys = Inr zs
                            \<and> map_of tinfo s = Some (toJS (ImmList zs))))
                    \<and> (\<forall>a b. map_of pi (KStr s) = Some (ImmMap a) \<and> fromJS v = ImmMap b \<longrightarrow>
                         (\<exists>m. mergeIntoMap a b = Inr m
                            \<and> map_of tinfo s = Some (toJS (ImmMap m)))))"
    if h: "Map_get parent (KStr ''info'') = ImmMap pi \<and> stringKeyed pi
             \<and> distinct (map fst desc) \<and> ownProp desc ''info'' = JObject ti
             \<and> isPlainObj ti \<and> distinct (map fst ti)" for pi ti
  proof -
    let ?ti = "fromJS_props ti"
    from h have h1: "Map_get parent (KStr ''info'') = ImmMap pi" and h2: "stringKeyed pi"
      and h3: "distinct (map fst desc)" and h4: "ownProp desc ''info'' = JObject ti"
      and h5: "isPlainObj ti" and h6: "distinct (map fst ti)"
      by simp_all
    from h1 have pp: "map_of parent (KStr ''info'') = Some (ImmMap pi)"
      by (auto simp: Map_get_def split: option.splits)
    from h4 have dt: "map_of desc ''info'' = Some (JObject ti)"
      by (auto simp: ownProp_def split: option.splits)
    have ri: "map_of ?raw (KStr ''info'') = Some (ImmMap ?ti)"
      using dt h5 by (simp add: map_of_fromJS_props)
    from map_of_mergeIntoMap [OF distinct_fromJS_props [OF h3] mg ri] pp
    have "deepMerger (ImmMap pi) (ImmMap ?ti) = Inr (Map_get merged (KStr ''info''))"
      by simp
    then have "\<exists>mi. mergeIntoMap pi ?ti = Inr mi \<and> Map_get merged (KStr ''info'') = ImmMap mi"
      by (simp only: deepMerger_Maps)
    then obtain mi where mi: "mergeIntoMap pi ?ti = Inr mi"
      and m: "Map_get merged (KStr ''info'') = ImmMap mi"
      by blast
    have sk: "stringKeyed mi"
      by (rule stringKeyed_mergeIntoMap [OF h2 stringKeyed_fromJS_props [OF h6] mi])
    have dti: "distinct (map fst ?ti)" by (rule distinct_fromJS_props [OF h6])
    have 1: "info reg P = Inr (JObject (toJS_entries pi []))" using iP h1 by simp
    have 2: "info reg T = Inr (JObject (toJS_entries mi []))" using iT m by simp
    have 3: "\<forall>s. s \<notin> fst ` set ti \<longrightarrow>
        map_of (toJS_entries mi []) s = map_of (toJS_entries pi []) s"
    proof (intro allI impI)
      fix s assume "s \<notin> fst ` set ti"
      then have "KStr s \<notin> fst ` set ?ti"
        by (rule KStr_notin_fromJS_props)
      then show "map_of (toJS_entries mi []) s = map_of (toJS_entries pi []) s"
        by (simp add: map_of_toJS_entries [OF sk] map_of_toJS_entries [OF h2]
            map_of_mergeIntoMap_other [OF mi])
    qed
    have 4: "(\<not> isCollection (fromJS v) \<longrightarrow> map_of (toJS_entries mi []) s = Some v)
          \<and> (map_of pi (KStr s) = None
               \<longrightarrow> map_of (toJS_entries mi []) s = Some (toJS (fromJS v)))
          \<and> (\<forall>x. map_of pi (KStr s) = Some x \<longrightarrow>
               (\<exists>z. deepMerger x (fromJS v) = Inr z
                  \<and> map_of (toJS_entries mi []) s = Some (toJS z)))
          \<and> (\<forall>xs ys. map_of pi (KStr s) = Some (ImmList xs) \<and> fromJS v = ImmList ys \<longrightarrow>
               (\<exists>zs. mergeIntoList xs ys = Inr zs
                  \<and> map_of (toJS_entries mi []) s = Some (toJS (ImmList zs))))
          \<and> (\<forall>a b. map_of pi (KStr s) = Some (ImmMap a) \<and> fromJS v = ImmMap b \<longrightarrow>
               (\<exists>m. mergeIntoMap a b = Inr m
                  \<and> map_of (toJS_entries mi []) s = Some (toJS (ImmMap m))))"
      if sv: "map_of ti s = Some v" for s v
    proof -
      have ts: "map_of ?ti (KStr s) = Some (fromJS v)"
        using sv by (simp add: map_of_fromJS_props)
      from map_of_mergeIntoMap [OF dti mi ts]
      have mm: "(case map_of pi (KStr s) of None \<Rightarrow> Inr (fromJS v)
                 | Some x \<Rightarrow> deepMerger x (fromJS v)) = Inr (Map_get mi (KStr s))"
        and kin: "KStr s \<in> fst ` set mi" by simp_all
      from kin have look: "map_of mi (KStr s) = Some (Map_get mi (KStr s))"
        by (auto simp: Map_get_def dom_map_of_conv_image_fst [symmetric])
      have ent: "map_of (toJS_entries mi []) s = Some (toJS (Map_get mi (KStr s)))"
        using look by (simp add: map_of_toJS_entries [OF sk])
      have c1: "map_of (toJS_entries mi []) s = Some v" if nc: "\<not> isCollection (fromJS v)"
      proof -
        have "(case map_of pi (KStr s) of None \<Rightarrow> Inr (fromJS v)
               | Some x \<Rightarrow> deepMerger x (fromJS v)) = Inr (fromJS v)"
          using nc by (simp add: deepMerger_replaces split: option.splits)
        with mm have "Map_get mi (KStr s) = fromJS v" by simp
        moreover have "toJS (fromJS v) = v"
          using nc fromJS_not_collection [OF nc] by (simp add: toJS_not_collection)
        ultimately show ?thesis using ent by simp
      qed
      have c2: "map_of (toJS_entries mi []) s = Some (toJS (fromJS v))"
        if "map_of pi (KStr s) = None"
        using mm that ent by simp
      have c3: "\<exists>z. deepMerger x (fromJS v) = Inr z
                  \<and> map_of (toJS_entries mi []) s = Some (toJS z)"
        if "map_of pi (KStr s) = Some x" for x
        using mm that ent by simp
      have c4: "\<exists>zs. mergeIntoList xs ys = Inr zs
                  \<and> map_of (toJS_entries mi []) s = Some (toJS (ImmList zs))"
        if "map_of pi (KStr s) = Some (ImmList xs) \<and> fromJS v = ImmList ys" for xs ys
      proof -
        from c3 [of "ImmList xs"] that obtain z
          where z: "deepMerger (ImmList xs) (ImmList ys) = Inr z"
            "map_of (toJS_entries mi []) s = Some (toJS z)" by auto
        from z(1) have "\<exists>zs. mergeIntoList xs ys = Inr zs \<and> z = ImmList zs"
          by (simp only: deepMerger_Lists)
        with z(2) show ?thesis by blast
      qed
      have c5: "\<exists>m. mergeIntoMap a b = Inr m
                  \<and> map_of (toJS_entries mi []) s = Some (toJS (ImmMap m))"
        if "map_of pi (KStr s) = Some (ImmMap a) \<and> fromJS v = ImmMap b" for a b
      proof -
        from c3 [of "ImmMap a"] that obtain z
          where z: "deepMerger (ImmMap a) (ImmMap b) = Inr z"
            "map_of (toJS_entries mi []) s = Some (toJS z)" by auto
        from z(1) have "\<exists>m. mergeIntoMap a b = Inr m \<and> z = ImmMap m"
          by (simp only: deepMerger_Maps)
        with z(2) show ?thesis by blast
      qed
      from c1 c2 c3 c4 c5 show ?thesis by blast
    qed
    have all4: "\<forall>s v. map_of ti s = Some v \<longrightarrow>
            (\<not> isCollection (fromJS v) \<longrightarrow> map_of (toJS_entries mi []) s = Some v)
          \<and> (map_of pi (KStr s) = None
               \<longrightarrow> map_of (toJS_entries mi []) s = Some (toJS (fromJS v)))
          \<and> (\<forall>x. map_of pi (KStr s) = Some x \<longrightarrow>
               (\<exists>z. deepMerger x (fromJS v) = Inr z
                  \<and> map_of (toJS_entries mi []) s = Some (toJS z)))
          \<and> (\<forall>xs ys. map_of pi (KStr s) = Some (ImmList xs) \<and> fromJS v = ImmList ys \<longrightarrow>
               (\<exists>zs. mergeIntoList xs ys = Inr zs
                  \<and> map_of (toJS_entries mi []) s = Some (toJS (ImmList zs))))
          \<and> (\<forall>a b. map_of pi (KStr s) = Some (ImmMap a) \<and> fromJS v = ImmMap b \<longrightarrow>
               (\<exists>m. mergeIntoMap a b = Inr m
                  \<and> map_of (toJS_entries mi []) s = Some (toJS (ImmMap m))))"
      by (intro allI impI) (rule 4)
    show ?thesis
      by (rule exI [of _ "toJS_entries pi []"], rule exI [of _ "toJS_entries mi []"])
        (rule conjI 1 2 3 all4)+
  qed
  have gP: "getProp reg P = ImmMap parent" using par by (simp add: getProp_def)
  have gT: "getProp reg T = ImmMap ?stored" using child by (simp add: getProp_def)
  have c: "\<forall>pi ti. Map_get parent (KStr ''info'') = ImmMap pi \<and> stringKeyed pi
             \<and> distinct (map fst desc) \<and> ownProp desc ''info'' = JObject ti
             \<and> isPlainObj ti \<and> distinct (map fst ti)
           \<longrightarrow> (\<exists>pinfo tinfo. info reg P = Inr (JObject pinfo) \<and> info reg T = Inr (JObject tinfo)
                 \<and> (\<forall>s. s \<notin> fst ` set ti \<longrightarrow> map_of tinfo s = map_of pinfo s)
                 \<and> (\<forall>s v. map_of ti s = Some v \<longrightarrow>
                      (\<not> isCollection (fromJS v) \<longrightarrow> map_of tinfo s = Some v)
                    \<and> (map_of pi (KStr s) = None \<longrightarrow> map_of tinfo s = Some (toJS (fromJS v)))
                    \<and> (\<forall>x. map_of pi (KStr s) = Some x \<longrightarrow>
                         (\<exists>z. deepMerger x (fromJS v) = Inr z \<and> map_of tinfo s = Some (toJS z)))
                    \<and> (\<forall>xs ys. map_of pi (KStr s) = Some (ImmList xs) \<and> fromJS v = ImmList ys \<longrightarrow>
                         (\<exists>zs. mergeIntoList xs ys = Inr zs
                            \<and> map_of tinfo s = Some (toJS (ImmList zs))))
                    \<and> (\<forall>a b. map_of pi (KStr s) = Some (ImmMap a) \<and> fromJS v = ImmMap b \<longrightarrow>
                         (\<exists>m. mergeIntoMap a b = Inr m
                            \<and> map_of tinfo s = Some (toJS (ImmMap m))))))"
    by (intro allI impI) (rule b)
  show ?thesis
    by (rule exI [of _ P], rule exI [of _ parent], rule exI [of _ merged])
      (rule conjI P tn pn gP md gT a c)+
qed

theorem child_type_merged_with_parent_witness:
  "(case ResourceTypeRegistry pseudoTopSort exampleTypes (JObject []) of
      Inl e \<Rightarrow> Inl e | Inr reg \<Rightarrow> info reg ''schools'')
     = Inr (JObject [(''description'', JString ''A school.''),
                     (''example'', JString ''State Government'')])
   \<and> (case ResourceTypeRegistry pseudoTopSort exampleTypes (JObject []) of
        Inl e \<Rightarrow> Inl e | Inr reg \<Rightarrow> info reg ''organizations'')
     = Inr (JObject [(''description'', JString ''An organization.''),
                     (''example'', JString ''State Government'')])"
proof -
  let ?R = "ResourceTypeRegistry pseudoTopSort exampleTypes (JObject [])"
  let ?pi = "[(KStr ''description'', JString ''An organization.''),
              (KStr ''example'', JString ''State Government'')]"
  let ?ti = "[(''description'', JString ''A school.'')]"
  have o: "typeRegistrationOrder pseudoTopSort exampleTypes
             = Inr [''organizations'', ''people'', ''schools'']"
    by code_simp
  have tin: "''schools'' \<in> set [''organizations'', ''people'', ''schools'']" by simp
  have "case ?R of Inl e \<Rightarrow> False | Inr reg \<Rightarrow> True"
    by code_simp
  then obtain reg where b: "?R = Inr reg" by (cases ?R) auto
  have d: "map_of exampleTypes ''schools'' = Some schoolsDescription"
    by (simp add: exampleTypes_def schoolsDescription_def)
  have p: "truthy (ownProp schoolsDescription ''parentType'')"
    by (simp add: ownProp_def schoolsDescription_def)
  have org: "(case ?R of Inl e \<Rightarrow> Inl e | Inr reg \<Rightarrow> Inr (getProp reg ''organizations''))
      = Inr organizationsMerged"
    by code_simp
  have iorg: "(case ?R of Inl e \<Rightarrow> Inl e | Inr reg \<Rightarrow> info reg ''organizations'')
     = Inr (JObject [(''description'', JString ''An organization.''),
                     (''example'', JString ''State Government'')])"
    by code_simp
  from child_type_merged_with_parent [OF o tin b d p]
  obtain P parent where P: "ownProp schoolsDescription ''parentType'' = JString P"
    and par: "getProp reg P = ImmMap parent"
    and inf: "\<forall>pi ti. Map_get parent (KStr ''info'') = ImmMap pi \<and> stringKeyed pi
             \<and> distinct (map fst schoolsDescription) \<and> ownProp schoolsDescription ''info'' = JObject ti
             \<and> isPlainObj ti \<and> distinct (map fst ti)
           \<longrightarrow> (\<exists>pinfo tinfo. info reg P = Inr (JObject pinfo)
                 \<and> info reg ''schools'' = Inr (JObject tinfo)
                 \<and> (\<forall>s. s \<notin> fst ` set ti \<longrightarrow> map_of tinfo s = map_of pinfo s)
                 \<and> (\<forall>s v. map_of ti s = Some v \<longrightarrow>
                      (\<not> isCollection (fromJS v) \<longrightarrow> map_of tinfo s = Some v)
                    \<and> (map_of pi (KStr s) = None \<longrightarrow> map_of tinfo s = Some (toJS (fromJS v)))
                    \<and> (\<forall>x. map_of pi (KStr s) = Some x \<longrightarrow>
                         (\<exists>z. deepMerger x (fromJS v) = Inr z \<and> map_of tinfo s = Some (toJS z)))
                    \<and> (\<forall>xs ys. map_of pi (KStr s) = Some (ImmList xs) \<and> fromJS v = ImmList ys \<longrightarrow>
                         (\<exists>zs. mergeIntoList xs ys = Inr zs
                            \<and> map_of tinfo s = Some (toJS (ImmList zs))))
                    \<and> (\<forall>a b. map_of pi (KStr s) = Some (ImmMap a) \<and> fromJS v = ImmMap b \<longrightarrow>
                         (\<exists>m. mergeIntoMap a b = Inr m
                            \<and> map_of tinfo s = Some (toJS (ImmMap m))))))"
    by blast
  from P have Pn: "P = ''organizations''"
    by (simp add: ownProp_def schoolsDescription_def)
  from org b have g: "getProp reg ''organizations'' = organizationsMerged" by simp
  from par Pn g have parent: "Map_get parent (KStr ''info'') = ImmMap ?pi"
    by (auto simp: organizationsMerged_def Map_get_def)
  have sk: "stringKeyed ?pi" by (simp add: stringKeyed_def)
  have dd: "distinct (map fst schoolsDescription)" by (simp add: schoolsDescription_def)
  have oi: "ownProp schoolsDescription ''info'' = JObject ?ti"
    by (simp add: ownProp_def schoolsDescription_def)
  have pt: "isPlainObj ?ti" by (simp add: isPlainObj_def)
  have dt: "distinct (map fst ?ti)" by simp
  from inf [THEN spec, THEN spec, THEN mp,
      OF conjI [OF parent conjI [OF sk conjI [OF dd conjI [OF oi conjI [OF pt dt]]]]]]
  obtain pinfo tinfo where pi: "info reg P = Inr (JObject pinfo)"
    and ti: "info reg ''schools'' = Inr (JObject tinfo)"
    and keep: "\<forall>s. s \<notin> fst ` set ?ti \<longrightarrow> map_of tinfo s = map_of pinfo s"
    and win: "\<forall>s v. map_of ?ti s = Some v \<longrightarrow>
                (\<not> isCollection (fromJS v) \<longrightarrow> map_of tinfo s = Some v)"
    by blast
  from iorg b pi Pn have pinfo: "pinfo = [(''description'', JString ''An organization.''),
                    (''example'', JString ''State Government'')]" by simp
  from keep pinfo have 1: "map_of tinfo ''example'' = Some (JString ''State Government'')"
    by simp
  from win have 2: "map_of tinfo ''description'' = Some (JString ''A school.'')"
    by (simp add: isCollection_def)
  have full: "(case ?R of Inl e \<Rightarrow> Inl e | Inr reg \<Rightarrow> info reg ''schools'')
     = Inr (JObject [(''description'', JString ''A school.''),
                     (''example'', JString ''State Government'')])"
    by code_simp
  with b ti have "tinfo = [(''description'', JString ''A school.''),
                     (''example'', JString ''State Government'')]" by simp
  with 1 2 ti iorg show ?thesis by (simp add: b)
qed

text \<open>
  C3. The claim as stated fails for lists: merging the default includes of \<open>schools\<close>
  into those of \<open>organizations\<close> keeps the parent's second element, and the getter
  returns a list that \<open>schools\<close> did not declare.
\<close>

theorem lists_merge_by_index:
  "deepMerger (ImmList [JString ''liaisons'', JString ''departments'']) (ImmList [JString ''principal''])
     = Inr (ImmList [JString ''principal'', JString ''departments''])
   \<and> deepMerger (ImmList [JString ''liaisons'', JString ''departments'']) (ImmList [JString ''principal''])
     \<noteq> Inr (ImmList [JString ''principal''])
   \<and> ownProp schoolsDescription ''defaultIncludes'' = JArray [JString ''principal'']
   \<and> defaultIncludes exampleRegistry ''schools''
     = Inr (JArray [JString ''principal'', JString ''departments''])"
  by code_simp

text \<open>
  C3, amended. A merge of a Map \<open>b\<close> into a Map \<open>a\<close> that succeeds keeps every key of
  \<open>a\<close> that \<open>b\<close> lacks, adds every key of \<open>b\<close> that \<open>a\<close> lacks, and at a key of both
  holds \<open>deepMerger\<close> of the two values. \<open>deepMerger\<close> of two Maps is their merge; of
  two values of which one is not a collection (a scalar, a function, an instance), the
  second value; of two Lists, the merge by index: as long as the longer of the two, with
  the merged elements where both have one, the second list's elements where only it has
  one, and the first list's elements beyond the second list's length. A List whose first
  element is a truthy scalar does not replace a Map: the merge throws a \<open>TypeError\<close>.
\<close>

theorem deepMerger_semantics:
  "(distinct (map fst b) \<and> mergeIntoMap a b = Inr m \<longrightarrow>
      (map_of b k = None \<longrightarrow> map_of m k = map_of a k)
    \<and> (\<forall>y. map_of b k = Some y \<and> map_of a k = None \<longrightarrow> map_of m k = Some y)
    \<and> (\<forall>x y. map_of b k = Some y \<and> map_of a k = Some x
          \<longrightarrow> (\<exists>z. deepMerger x y = Inr z \<and> map_of m k = Some z)))
   \<and> (deepMerger (ImmMap a) (ImmMap b) = Inr z \<longleftrightarrow> (\<exists>m'. mergeIntoMap a b = Inr m' \<and> z = ImmMap m'))
   \<and> (\<not> isCollection x \<or> \<not> isCollection y \<longrightarrow> deepMerger x y = Inr y)
   \<and> (deepMerger (ImmList xs) (ImmList ys) = Inr z
        \<longleftrightarrow> (\<exists>zs'. mergeIntoList xs ys = Inr zs' \<and> z = ImmList zs'))
   \<and> (mergeIntoList xs ys = Inr zs \<longrightarrow>
        length zs = max (length xs) (length ys)
      \<and> (i < max (length xs) (length ys) \<longrightarrow>
          (if i < length ys
           then (if i < length xs then deepMerger (xs ! i) (ys ! i) = Inr (zs ! i)
                 else zs ! i = ys ! i)
           else zs ! i = xs ! i)))
   \<and> (truthy entry \<and> isPrimitive entry \<longrightarrow>
        deepMerger (ImmMap a) (ImmList (entry # rest)) = Inl (TypeError ''Expected [K, V] tuple''))"
proof -
  have 1: "map_of m k = map_of a k"
    if "distinct (map fst b)" "mergeIntoMap a b = Inr m" "map_of b k = None"
  proof -
    from that(3) have "k \<notin> fst ` set b" by (simp add: map_of_eq_None_iff)
    with that(2) show ?thesis by (rule map_of_mergeIntoMap_other)
  qed
  have 2: "map_of m k = Some y'"
    if "distinct (map fst b)" "mergeIntoMap a b = Inr m" "map_of b k = Some y'" "map_of a k = None"
    for y'
  proof -
    from map_of_mergeIntoMap [OF that(1,2,3)] that(4)
    have "Map_get m k = y'" "k \<in> fst ` set m" by auto
    then show ?thesis
      by (auto simp: Map_get_def dom_map_of_conv_image_fst [symmetric])
  qed
  have 3: "\<exists>z. deepMerger x' y' = Inr z \<and> map_of m k = Some z"
    if "distinct (map fst b)" "mergeIntoMap a b = Inr m" "map_of b k = Some y'" "map_of a k = Some x'"
    for x' y'
  proof -
    from map_of_mergeIntoMap [OF that(1,2,3)] that(4)
    have "deepMerger x' y' = Inr (Map_get m k)" "k \<in> fst ` set m" by auto
    then show ?thesis
      by (auto simp: Map_get_def dom_map_of_conv_image_fst [symmetric])
  qed
  have 4: "length zs = max (length xs) (length ys)
      \<and> (i < max (length xs) (length ys) \<longrightarrow>
          (if i < length ys
           then (if i < length xs then deepMerger (xs ! i) (ys ! i) = Inr (zs ! i)
                 else zs ! i = ys ! i)
           else zs ! i = xs ! i))"
    if "mergeIntoList xs ys = Inr zs"
    using length_mergeIntoList [OF that] nth_mergeIntoList [OF that, of i] by blast
  have 5: "deepMerger (ImmMap a) (ImmList (entry # rest)) = Inl (TypeError ''Expected [K, V] tuple'')"
    if "truthy entry" "isPrimitive entry"
    using that by simp
  show ?thesis
    using 1 2 3 4 5 deepMerger_Maps [of a b z] deepMerger_Lists [of xs ys z]
      deepMerger_replaces [of x y]
    by blast
qed

theorem deepMerger_semantics_witness:
  "mergeIntoMap [(KStr ''description'', JString ''An organization.''),
                 (KStr ''example'', JString ''State Government'')]
                [(KStr ''description'', JString ''A school.'')]
     = Inr [(KStr ''description'', JString ''A school.''),
            (KStr ''example'', JString ''State Government'')]
   \<and> deepMerger (JString ''An organization.'') (JString ''A school.'') = Inr (JString ''A school.'')
   \<and> mergeIntoList [JString ''liaisons'', JString ''departments''] [JString ''principal'']
     = Inr [JString ''principal'', JString ''departments'']
   \<and> [JString ''principal'', JString ''departments''] ! 1
     = [JString ''liaisons'', JString ''departments''] ! 1
   \<and> deepMerger (ImmMap [(KStr ''description'', JString ''An organization.''),
                          (KStr ''example'', JString ''State Government'')])
        (ImmList [JString ''principal''])
     = Inl (TypeError ''Expected [K, V] tuple'')"
proof -
  let ?a = "[(KStr ''description'', JString ''An organization.''),
             (KStr ''example'', JString ''State Government'')]"
  let ?b = "[(KStr ''description'', JString ''A school.'')]"
  let ?m = "[(KStr ''description'', JString ''A school.''),
             (KStr ''example'', JString ''State Government'')]"
  let ?xs = "[JString ''liaisons'', JString ''departments'']"
  let ?ys = "[JString ''principal'']"
  let ?zs = "[JString ''principal'', JString ''departments'']"
  have m: "mergeIntoMap ?a ?b = Inr ?m" by simp
  have l: "mergeIntoList ?xs ?ys = Inr ?zs" by simp
  from deepMerger_semantics
    [where b = ?b and a = ?a and m = ?m and k = "KStr ''description''" and z = "ImmMap ?m"
       and x = "JString ''An organization.''" and y = "JString ''A school.''"
       and xs = ?xs and ys = ?ys and zs = ?zs and i = 1
       and entry = "JString ''principal''" and rest = "[]"] m l
  show ?thesis by (simp add: isCollection_def)
qed



text \<open>
  C5. A request that is not rejected and whose \<open>Accept\<close> header lists the vendor media
  type with a quality that is not zero: the response has the vendor media type, whatever
  else the header lists and with whatever qualities, and the same holds for the header's
  ranges in any other order.
\<close>

theorem vendor_type_preferred:
  assumes "validateContentType (contentType req) = None"
    and "\<exists>r \<in> set (accept req). rangeType r = vendorMediaType \<and> 0 < quality r"
  shows "responseType (respond handleResource req) = Some vendorMediaType
       \<and> (\<forall>ranges. set ranges = set (accept req) \<longrightarrow>
            responseType (respond handleResource (req\<lparr>accept := ranges\<rparr>)) = Some vendorMediaType)"
proof -
  have r: "responseType (respond handleResource q) = Some vendorMediaType"
    if "validateContentType (contentType q) = None"
      and "\<exists>r \<in> set (accept q). rangeType r = vendorMediaType \<and> 0 < quality r" for q
  proof -
    from that(2) have "negotiateContentType (accept q) = Some vendorMediaType"
      by (simp add: negotiateContentType_def list_ex_iff)
    with that(1) have "negotiate q = Some (Accepted vendorMediaType)"
      by (simp add: negotiate_def)
    then show ?thesis by (simp add: respond_def)
  qed
  have "responseType (respond handleResource (req\<lparr>accept := ranges\<rparr>)) = Some vendorMediaType"
    if "set ranges = set (accept req)" for ranges
    using that assms by (intro r) auto
  with r [OF assms] show ?thesis by blast
qed

theorem vendor_type_preferred_witness:
  "status (respond exampleHandler postAcceptingBoth) = 201
   \<and> responseType (respond exampleHandler postAcceptingBoth) = Some ''application/vnd.api+json''
   \<and> responseType (respond exampleHandler
        (postAcceptingBoth\<lparr>accept := [\<lparr>rangeType = ''application/json'', quality = 1000\<rparr>,
                                       \<lparr>rangeType = vendorMediaType, quality = 1000\<rparr>]\<rparr>))
       = Some ''application/vnd.api+json''"
proof -
  have v: "validateContentType (contentType postAcceptingBoth) = None"
    by (simp add: validateContentType_def postAcceptingBoth_def)
  have a: "\<exists>r \<in> set (accept postAcceptingBoth). rangeType r = vendorMediaType \<and> 0 < quality r"
    by (simp add: postAcceptingBoth_def)
  have s: "set [\<lparr>rangeType = ''application/json'', quality = 1000\<rparr>,
                \<lparr>rangeType = vendorMediaType, quality = 1000\<rparr>] = set (accept postAcceptingBoth)"
    by (auto simp: postAcceptingBoth_def)
  have "status (respond exampleHandler postAcceptingBoth) = 201"
    by code_simp
  with vendor_type_preferred [OF v a, of exampleHandler] s show ?thesis
    by (simp add: vendorMediaType_def)
qed

text \<open>
  C6. The registry keeps its types in an object created by \<open>{}\<close>, and both the \<open>in\<close>
  operator of \<open>hasType\<close> and the property reads of \<open>type\<close> and of the getters see the
  members that the object inherits from \<open>Object.prototype\<close>. For a registry with no
  type at all, \<open>hasType("toString")\<close> is true, and \<open>type("toString")\<close> and the getters
  throw, because the inherited member is neither \<open>undefined\<close> nor a Map. For a name that
  is neither registered nor inherited, \<open>hasType\<close> is false and \<open>type\<close> returns
  \<open>undefined\<close>.
\<close>

theorem inherited_names_are_found:
  "ResourceTypeRegistry pseudoTopSort [] (JObject []) = Inr []
   \<and> hasType [] ''toString''
   \<and> type [] ''toString'' = Inl (TypeError ''it.toJS is not a function'')
   \<and> info [] ''constructor'' = Inl (TypeError ''it.get is not a function'')
   \<and> \<not> hasType [] ''unknown''
   \<and> type [] ''unknown'' = Inr JUndefined
   \<and> info [] ''unknown'' = Inr JUndefined"
  by code_simp

text \<open>
  C7. Type descriptions with distinct names: when a type declares a parent that is not
  among the type names, the sort fails with a configuration error that names the missing
  parent; when a type is its own ancestor, the sort fails with a configuration error; in
  both cases the constructor returns an error and no registry, whatever the defaults.
\<close>

theorem invalid_hierarchy_is_rejected:
  assumes "distinct (map fst tds)"
    and "collectGraph tds ([], [], []) = Inr g"
  shows "(missingParent tds \<longrightarrow>
            (\<exists>P. P \<notin> fst ` set tds \<and>
               typeRegistrationOrder pseudoTopSort tds
                 = Inl (ConfigError (''parentType '' @ P @ '' is not a registered type''))))
       \<and> (cyclicParent tds \<longrightarrow>
            (\<exists>msg. typeRegistrationOrder pseudoTopSort tds = Inl (ConfigError msg)))
       \<and> (missingParent tds \<or> cyclicParent tds \<longrightarrow>
            (\<forall>descriptionDefaults. \<exists>e.
               ResourceTypeRegistry pseudoTopSort tds descriptionDefaults = Inl e))"
proof -
  obtain nodes roots es where g3: "g = (nodes, roots, es)" by (cases g) auto
  from collectGraph_Inr [OF assms(2) [unfolded g3]]
  have geq: "nodes = map fst tds" "roots = rootsOf tds" "es = edgesOf tds []" by auto
  have tro: "typeRegistrationOrder pseudoTopSort tds = pseudoTopSort nodes es roots"
    using assms(2) by (simp add: typeRegistrationOrder_def g3)
  have a: "\<exists>P. P \<notin> fst ` set tds \<and>
               typeRegistrationOrder pseudoTopSort tds
                 = Inl (ConfigError (''parentType '' @ P @ '' is not a registered type''))"
    if "missingParent tds"
  proof -
    from that obtain T desc P where td: "(T, desc) \<in> set tds" "declaredParent desc = Some P"
      "P \<notin> fst ` set tds"
      by (auto simp: missingParent_def list_ex_iff split: option.splits)
    then have "P \<in> fst ` set es" by (auto simp: geq keys_edgesOf)
    then obtain cs where "(P, cs) \<in> set es" by auto
    with td(3) have "\<exists>x \<in> set es. (\<lambda>(p, cs). p \<notin> set nodes) x"
      by (auto simp: geq)
    then have "find (\<lambda>(p, cs). p \<notin> set nodes) es \<noteq> None"
      by (auto simp: find_None_iff)
    then obtain p' cs' where f: "find (\<lambda>(p, cs). p \<notin> set nodes) es = Some (p', cs')"
      by (cases "find (\<lambda>(p, cs). p \<notin> set nodes) es") auto
    then have "p' \<notin> set nodes" by (auto simp: find_Some_iff)
    with f show ?thesis by (auto simp: tro pseudoTopSort_def geq)
  qed
  have b: "\<exists>msg. typeRegistrationOrder pseudoTopSort tds = Inl (ConfigError msg)"
    if "cyclicParent tds"
  proof (cases "typeRegistrationOrder pseudoTopSort tds")
    case (Inl e)
    with tro have "pseudoTopSort nodes es roots = Inl e" by simp
    from pseudoTopSort_error [OF this] Inl show ?thesis by blast
  next
    case (Inr order)
    from that obtain T k where "ancestor tds (Suc k) T = Some T"
      by (auto simp: cyclicParent_def list_ex_iff)
    from ancestor_index [OF assms Inr this] show ?thesis by simp
  qed
  have c: "\<forall>descriptionDefaults. \<exists>e.
               ResourceTypeRegistry pseudoTopSort tds descriptionDefaults = Inl e"
    if "missingParent tds \<or> cyclicParent tds"
  proof -
    from that a b obtain e where "typeRegistrationOrder pseudoTopSort tds = Inl e" by blast
    then show ?thesis by (auto simp: ResourceTypeRegistry_def split: sum.splits)
  qed
  from a b c show ?thesis by blast
qed

theorem invalid_hierarchy_is_rejected_witness:
  "typeRegistrationOrder pseudoTopSort exampleMissingParent
      = Inl (ConfigError ''parentType organizations is not a registered type'')
   \<and> (\<exists>msg. typeRegistrationOrder pseudoTopSort exampleCycle = Inl (ConfigError msg))
   \<and> (\<exists>e. ResourceTypeRegistry pseudoTopSort exampleCycle (JObject []) = Inl e)"
proof -
  have d1: "distinct (map fst exampleMissingParent)" by (simp add: exampleMissingParent_def)
  have g1: "collectGraph exampleMissingParent ([], [], []) =
      Inr ([''schools'', ''people''], [''people''], [(''organizations'', [(''schools'', True)])])"
    by code_simp
  have m1: "missingParent exampleMissingParent" by code_simp
  have d2: "distinct (map fst exampleCycle)" by (simp add: exampleCycle_def)
  have g2: "collectGraph exampleCycle ([], [], []) =
      Inr ([''schools'', ''universities'', ''people''], [''people''],
           [(''universities'', [(''schools'', True)]), (''schools'', [(''universities'', True)])])"
    by code_simp
  have m2: "cyclicParent exampleCycle" by code_simp
  from invalid_hierarchy_is_rejected [OF d1 g1] m1
  obtain P where "typeRegistrationOrder pseudoTopSort exampleMissingParent
                 = Inl (ConfigError (''parentType '' @ P @ '' is not a registered type''))"
    by blast
  moreover have "typeRegistrationOrder pseudoTopSort exampleMissingParent
      = Inl (ConfigError ''parentType organizations is not a registered type'')"
    by code_simp
  moreover from invalid_hierarchy_is_rejected [OF d2 g2] m2
  have "(\<exists>msg. typeRegistrationOrder pseudoTopSort exampleCycle = Inl (ConfigError msg))
      \<and> (\<exists>e. ResourceTypeRegistry pseudoTopSort exampleCycle (JObject []) = Inl e)"
    by blast
  ultimately show ?thesis by blast
qed

text \<open>
  C8. Type descriptions with distinct names in which every type reaches a root by
  following \<open>parentType\<close> (so every declared parent is registered and no chain is
  cyclic): the sort returns an order; the order holds every type once; every type stands
  at an index greater than its parent's; and two types with the same parent (or two
  roots) stand in the order as they stand in the input. The order depends on the names
  and the declared parents only.
\<close>

theorem registration_order_respects_parents:
  assumes "distinct (map fst tds)"
    and "collectGraph tds ([], [], []) = Inr g"
    and "\<forall>T \<in> fst ` set tds. reachesRoot tds (length tds) T"
  shows "\<exists>order. typeRegistrationOrder pseudoTopSort tds = Inr order
       \<and> set order = fst ` set tds \<and> distinct order
       \<and> (\<forall>T P. parentIn tds T = Some P \<longrightarrow> indexOf order P < indexOf order T)
       \<and> (\<forall>A B. A \<in> fst ` set tds \<and> B \<in> fst ` set tds \<and> parentIn tds A = parentIn tds B
              \<and> indexOf (map fst tds) A < indexOf (map fst tds) B
            \<longrightarrow> indexOf order A < indexOf order B)
       \<and> (\<forall>tds' g'. collectGraph tds' ([], [], []) = Inr g'
              \<and> map (\<lambda>(T, desc). (T, declaredParent desc)) tds'
                  = map (\<lambda>(T, desc). (T, declaredParent desc)) tds
            \<longrightarrow> typeRegistrationOrder pseudoTopSort tds' = Inr order)"
proof -
  from registration_order_total [OF assms] obtain order
    where o: "typeRegistrationOrder pseudoTopSort tds = Inr order" by blast
  note s = registration_order_sound [OF assms(1,2) o]
  have det: "typeRegistrationOrder pseudoTopSort tds' = Inr order"
    if g': "collectGraph tds' ([], [], []) = Inr g'"
      and sk: "map (\<lambda>(T, desc). (T, declaredParent desc)) tds'
                  = map (\<lambda>(T, desc). (T, declaredParent desc)) tds" for tds' g'
  proof -
    obtain n r e where g3: "g = (n, r, e)" by (cases g) auto
    obtain n' r' e' where g3': "g' = (n', r', e')" by (cases g') auto
    from collectGraph_Inr [OF assms(2) [unfolded g3]] collectGraph_Inr [OF g' [unfolded g3']]
      graph_skeleton [OF sk]
    have "n' = n" "r' = r" "e' = e" by auto
    with o assms(2) g' show ?thesis
      by (simp add: typeRegistrationOrder_def g3 g3')
  qed
  show ?thesis
  proof (intro exI [of _ order] conjI allI impI)
    show "typeRegistrationOrder pseudoTopSort tds = Inr order" by (rule o)
    show "set order = fst ` set tds" by (rule s(1))
    show "distinct order" by (rule s(2))
    show "indexOf order P < indexOf order T" if "parentIn tds T = Some P" for T P
      using that by (rule s(3))
    show "indexOf order A < indexOf order B"
      if "A \<in> fst ` set tds \<and> B \<in> fst ` set tds \<and> parentIn tds A = parentIn tds B
              \<and> indexOf (map fst tds) A < indexOf (map fst tds) B" for A B
      using that s(4) [of A B] by blast
    show "typeRegistrationOrder pseudoTopSort tds' = Inr order"
      if "collectGraph tds' ([], [], []) = Inr g'
              \<and> map (\<lambda>(T, desc). (T, declaredParent desc)) tds'
                  = map (\<lambda>(T, desc). (T, declaredParent desc)) tds" for tds' g'
      using that det [of tds' g'] by blast
  qed
qed

theorem registration_order_respects_parents_witness:
  "typeRegistrationOrder pseudoTopSort exampleHierarchy
     = Inr [''organizations'', ''people'', ''schools'', ''companies'', ''universities'']
   \<and> indexOf [''organizations'', ''people'', ''schools'', ''companies'', ''universities''] ''schools''
       < indexOf [''organizations'', ''people'', ''schools'', ''companies'', ''universities'']
           ''universities''
   \<and> indexOf [''organizations'', ''people'', ''schools'', ''companies'', ''universities''] ''schools''
       < indexOf [''organizations'', ''people'', ''schools'', ''companies'', ''universities'']
           ''companies''"
proof -
  let ?order = "[''organizations'', ''people'', ''schools'', ''companies'', ''universities'']"
  have d: "distinct (map fst exampleHierarchy)"
    by (simp add: exampleHierarchy_def)
  have g: "collectGraph exampleHierarchy ([], [], []) =
      Inr ([''schools'', ''organizations'', ''companies'', ''universities'', ''people''],
           [''organizations'', ''people''],
           [(''organizations'', [(''schools'', True), (''companies'', True)]),
            (''schools'', [(''universities'', True)])])"
    by code_simp
  have t: "\<forall>T \<in> fst ` set exampleHierarchy. reachesRoot exampleHierarchy (length exampleHierarchy) T"
    by code_simp
  have e: "typeRegistrationOrder pseudoTopSort exampleHierarchy = Inr ?order"
    by code_simp
  from registration_order_respects_parents [OF d g t] e
  have par: "\<forall>T P. parentIn exampleHierarchy T = Some P \<longrightarrow> indexOf ?order P < indexOf ?order T"
    and sib: "\<forall>A B. A \<in> fst ` set exampleHierarchy \<and> B \<in> fst ` set exampleHierarchy
              \<and> parentIn exampleHierarchy A = parentIn exampleHierarchy B
              \<and> indexOf (map fst exampleHierarchy) A < indexOf (map fst exampleHierarchy) B
            \<longrightarrow> indexOf ?order A < indexOf ?order B"
    by auto
  have p: "parentIn exampleHierarchy ''universities'' = Some ''schools''"
    by code_simp
  have s: "''schools'' \<in> fst ` set exampleHierarchy \<and> ''companies'' \<in> fst ` set exampleHierarchy
      \<and> parentIn exampleHierarchy ''schools'' = parentIn exampleHierarchy ''companies''
      \<and> indexOf (map fst exampleHierarchy) ''schools'' < indexOf (map fst exampleHierarchy) ''companies''"
    by code_simp
  from par p have 1: "indexOf ?order ''schools'' < indexOf ?order ''universities''" by blast
  from sib s have 2: "indexOf ?order ''schools'' < indexOf ?order ''companies''" by blast
  from e 1 2 show ?thesis by simp
qed

text \<open>
  C10. The claim as stated fails: a getter returns a value that is not a Map or a List
  as it is stored. \<open>dbAdapter("organizations")\<close> returns the reference that the stored
  description holds (address 0, which existed before the call) and allocates nothing;
  after the caller has written a property through that reference, the next call returns
  the same reference, and the object it refers to has changed.
\<close>

theorem getter_returns_the_stored_object:
  "makeGetter_h ''dbAdapter'' adapterRegistry ''organizations'' adapterHeap
     = Inr (SVal (HRef 0), adapterHeap)
   \<and> readProp adapterHeap (HRef 0) ''connected'' = HPrim (PBool False)
   \<and> makeGetter_h ''dbAdapter'' adapterRegistry ''organizations''
        (writeProp adapterHeap (HRef 0) ''connected'' (HPrim (PBool True)))
     = Inr (SVal (HRef 0), writeProp adapterHeap (HRef 0) ''connected'' (HPrim (PBool True)))
   \<and> readProp (writeProp adapterHeap (HRef 0) ''connected'' (HPrim (PBool True))) (HRef 0)
        ''connected'' = HPrim (PBool True)"
  by code_simp

text \<open>
  C10, amended. A call of \<open>type(N)\<close>, of a getter or of \<open>urlTemplates(N)\<close> that returns
  reads a stored value, and on every heap, whatever its objects hold (so after any
  mutation of earlier results), the call returns and leaves every existing cell as it
  was. When the stored value is a Map or a List, the call appends new plain objects and
  arrays and returns a reference to the last of them; what it returns is the conversion
  of the stored value, with every object and array of the conversion among the new cells
  and every leaf the stored leaf itself. When the stored value is not a Map or a List,
  the call appends nothing and returns the stored value itself: if it is a reference to
  an object, a property written through the reference before a later call is read back
  through the reference which that call returns. The value returned and the new cells
  refer only to new cells and to what the stored value itself refers to.
\<close>

theorem accessors_allocate_fresh:
  assumes "callAccessor A reg N h = Inr (r, h')"
  shows "\<exists>x. readBy A reg N = Inr x
     \<and> (\<forall>g. \<exists>v cells. callAccessor A reg N g = Inr (SVal v, g @ cells)
           \<and> list_all isPlain cells
           \<and> (isCollectionS x \<longrightarrow> cells \<noteq> [] \<and> v = HRef (length g + length cells - 1))
           \<and> (\<not> isCollectionS x \<longrightarrow> cells = [] \<and> x = SVal v)
           \<and> (wellKeyed x \<longrightarrow> represents (length g) (g @ cells) x v)
           \<and> refsVal v \<union> refsCells cells \<subseteq> refsStored x \<union> {length g ..< length g + length cells})
     \<and> (\<forall>g a k w. x = SVal (HRef a) \<and> a < length g \<and> isObjectCell (g ! a) \<longrightarrow>
           callAccessor A reg N (writeProp g (HRef a) k w)
             = Inr (SVal (HRef a), writeProp g (HRef a) k w)
         \<and> readProp (writeProp g (HRef a) k w) (HRef a) k = w)"
proof -
  from accessor_reads [OF assms] obtain x where x: "readBy A reg N = Inr x" ..
  have call: "\<forall>g. \<exists>v cells. callAccessor A reg N g = Inr (SVal v, g @ cells)
           \<and> list_all isPlain cells
           \<and> (isCollectionS x \<longrightarrow> cells \<noteq> [] \<and> v = HRef (length g + length cells - 1))
           \<and> (\<not> isCollectionS x \<longrightarrow> cells = [] \<and> x = SVal v)
           \<and> (wellKeyed x \<longrightarrow> represents (length g) (g @ cells) x v)
           \<and> refsVal v \<union> refsCells cells \<subseteq> refsStored x \<union> {length g ..< length g + length cells}"
    by (intro allI) (rule accessor_call [OF assms x])
  have shared: "callAccessor A reg N (writeProp g (HRef a) k w)
             = Inr (SVal (HRef a), writeProp g (HRef a) k w)
         \<and> readProp (writeProp g (HRef a) k w) (HRef a) k = w"
    if h: "x = SVal (HRef a) \<and> a < length g \<and> isObjectCell (g ! a)" for g a k w
  proof -
    from accessor_call [OF assms x, of "writeProp g (HRef a) k w"] obtain v cells where
      c: "callAccessor A reg N (writeProp g (HRef a) k w) = Inr (SVal v, writeProp g (HRef a) k w @ cells)"
      and n: "\<not> isCollectionS x \<longrightarrow> cells = [] \<and> x = SVal v"
      by (elim exE conjE)
    from h n have "cells = []" "v = HRef a" by auto
    with c readProp_writeProp [of a g k w] h show ?thesis by simp
  qed
  have shared': "\<forall>g a k w. x = SVal (HRef a) \<and> a < length g \<and> isObjectCell (g ! a) \<longrightarrow>
           callAccessor A reg N (writeProp g (HRef a) k w)
             = Inr (SVal (HRef a), writeProp g (HRef a) k w)
         \<and> readProp (writeProp g (HRef a) k w) (HRef a) k = w"
    by (intro allI impI) (rule shared)
  show ?thesis
    by (rule exI [of _ x]) (rule conjI x call shared')+
qed

theorem accessors_allocate_fresh_witness:
  "callAccessor (Getter ''info'') adapterRegistry ''organizations'' heapAfterMutation
     = Inr (SVal (HRef 2),
            heapAfterMutation @ [PlainObject [(''description'', HPrim (PString ''An organization.''))]])
   \<and> readProp heapAfterMutation (HRef 1) ''description'' = HPrim (PString ''changed'')
   \<and> represents 2
        (heapAfterMutation @ [PlainObject [(''description'', HPrim (PString ''An organization.''))]])
        (SMap [(KStr ''description'', SVal (HPrim (PString ''An organization.'')))]) (HRef 2)
   \<and> callAccessor (Getter ''dbAdapter'') adapterRegistry ''organizations''
        (writeProp adapterHeap (HRef 0) ''connected'' (HPrim (PBool True)))
     = Inr (SVal (HRef 0), writeProp adapterHeap (HRef 0) ''connected'' (HPrim (PBool True)))
   \<and> readProp (writeProp adapterHeap (HRef 0) ''connected'' (HPrim (PBool True))) (HRef 0)
        ''connected'' = HPrim (PBool True)"
proof -
  let ?info = "SMap [(KStr ''description'', SVal (HPrim (PString ''An organization.'')))]"
  let ?cell = "PlainObject [(''description'', HPrim (PString ''An organization.''))]"
  have e1: "callAccessor (Getter ''info'') adapterRegistry ''organizations'' adapterHeap
      = Inr (SVal (HRef 1), adapterHeap @ [?cell])"
    by code_simp
  from accessors_allocate_fresh [OF e1]
  obtain x where xc: "readBy (Getter ''info'') adapterRegistry ''organizations'' = Inr x
     \<and> (\<forall>g. \<exists>v cells.
           callAccessor (Getter ''info'') adapterRegistry ''organizations'' g = Inr (SVal v, g @ cells)
           \<and> list_all isPlain cells
           \<and> (isCollectionS x \<longrightarrow> cells \<noteq> [] \<and> v = HRef (length g + length cells - 1))
           \<and> (\<not> isCollectionS x \<longrightarrow> cells = [] \<and> x = SVal v)
           \<and> (wellKeyed x \<longrightarrow> represents (length g) (g @ cells) x v)
           \<and> refsVal v \<union> refsCells cells \<subseteq> refsStored x \<union> {length g ..< length g + length cells})
     \<and> (\<forall>g a k w. x = SVal (HRef a) \<and> a < length g \<and> isObjectCell (g ! a) \<longrightarrow>
           callAccessor (Getter ''info'') adapterRegistry ''organizations'' (writeProp g (HRef a) k w)
             = Inr (SVal (HRef a), writeProp g (HRef a) k w)
         \<and> readProp (writeProp g (HRef a) k w) (HRef a) k = w)" ..
  note x = xc [THEN conjunct1] and call = xc [THEN conjunct2, THEN conjunct1]
  have "readBy (Getter ''info'') adapterRegistry ''organizations'' = Inr ?info"
    by code_simp
  with x have xe: "x = ?info" by simp
  from call [THEN spec, of heapAfterMutation] obtain v cells where
    c: "callAccessor (Getter ''info'') adapterRegistry ''organizations'' heapAfterMutation
          = Inr (SVal v, heapAfterMutation @ cells)"
    and r: "wellKeyed x \<longrightarrow> represents (length heapAfterMutation) (heapAfterMutation @ cells) x v"
    by (elim exE conjE)
  have e2: "callAccessor (Getter ''info'') adapterRegistry ''organizations'' heapAfterMutation
      = Inr (SVal (HRef 2), heapAfterMutation @ [?cell])"
    by code_simp
  from c e2 have vc: "v = HRef 2" "cells = [?cell]" by simp_all
  have l: "length heapAfterMutation = 2" by code_simp
  from r have 1: "represents 2 (heapAfterMutation @ [?cell]) ?info (HRef 2)"
    by (simp add: xe vc l)
  have 2: "readProp heapAfterMutation (HRef 1) ''description'' = HPrim (PString ''changed'')"
    by code_simp
  have e3: "callAccessor (Getter ''dbAdapter'') adapterRegistry ''organizations'' adapterHeap
      = Inr (SVal (HRef 0), adapterHeap)"
    by code_simp
  from accessors_allocate_fresh [OF e3]
  obtain y where yc: "readBy (Getter ''dbAdapter'') adapterRegistry ''organizations'' = Inr y
     \<and> (\<forall>g. \<exists>v cells.
           callAccessor (Getter ''dbAdapter'') adapterRegistry ''organizations'' g = Inr (SVal v, g @ cells)
           \<and> list_all isPlain cells
           \<and> (isCollectionS y \<longrightarrow> cells \<noteq> [] \<and> v = HRef (length g + length cells - 1))
           \<and> (\<not> isCollectionS y \<longrightarrow> cells = [] \<and> y = SVal v)
           \<and> (wellKeyed y \<longrightarrow> represents (length g) (g @ cells) y v)
           \<and> refsVal v \<union> refsCells cells \<subseteq> refsStored y \<union> {length g ..< length g + length cells})
     \<and> (\<forall>g a k w. y = SVal (HRef a) \<and> a < length g \<and> isObjectCell (g ! a) \<longrightarrow>
           callAccessor (Getter ''dbAdapter'') adapterRegistry ''organizations'' (writeProp g (HRef a) k w)
             = Inr (SVal (HRef a), writeProp g (HRef a) k w)
         \<and> readProp (writeProp g (HRef a) k w) (HRef a) k = w)" ..
  note y = yc [THEN conjunct1] and sh = yc [THEN conjunct2, THEN conjunct2]
  have "readBy (Getter ''dbAdapter'') adapterRegistry ''organizations'' = Inr (SVal (HRef 0))"
    by code_simp
  with y have ye: "y = SVal (HRef 0)" by simp
  have oc: "0 < length adapterHeap \<and> isObjectCell (adapterHeap ! 0)"
    by (simp add: adapterHeap_def)
  from sh [THEN spec, THEN spec, THEN spec, THEN spec, THEN mp, OF conjI [OF ye oc]]
  have 3: "callAccessor (Getter ''dbAdapter'') adapterRegistry ''organizations''
        (writeProp adapterHeap (HRef 0) ''connected'' (HPrim (PBool True)))
     = Inr (SVal (HRef 0), writeProp adapterHeap (HRef 0) ''connected'' (HPrim (PBool True)))
   \<and> readProp (writeProp adapterHeap (HRef 0) ''connected'' (HPrim (PBool True))) (HRef 0)
        ''connected'' = HPrim (PBool True)"
    by blast
  from e2 1 2 3 show ?thesis by simp
qed


end
